theory Spec2Isabelle
  imports Complex_Main "HOL-Library.Multiset" "HOL-Library.Sublist"
begin

section \<open>Floating-point values\<close>

text \<open>
  Go's \<^verbatim>\<open>float64\<close> is IEEE 754 binary64. A value of the model is NaN, one of the two
  infinities, or a finite number, given by the real number it denotes. Every arithmetic
  operation computes the exact real result and rounds it to the nearest binary64 number,
  ties to even (\<open>round64\<close> below), so sums, products, quotients and square roots carry a
  rounding error, large results overflow to an infinity, and addition is not associative.

  The two zeros are one value and there is one NaN: the programs' only divisors are
  \<^verbatim>\<open>float64(len(records))\<close> and the constant 2, so they never divide by a negative zero,
  and a zero divisor is taken as \<open>+0\<close>. Each operation is rounded on its own, as the
  compiler does for the default amd64 target (the Go specification allows an
  implementation to fuse \<open>x*y + z\<close> into one rounding, which it does on some others). The type also has the values
  \<open>Fin x\<close> for reals \<open>x\<close> that are not binary64 numbers; no operation returns one.
\<close>

datatype float64 = NaN | NInf | Fin real | PInf

text \<open>
  Rounding to the nearest integer, ties to the even one.
\<close>

definition round_half_even :: "real \<Rightarrow> int" where
  "round_half_even m =
     (let f = \<lfloor>m\<rfloor>; d = m - of_int f
      in if d < 1 / 2 then f else if 1 / 2 < d then f + 1 else if even f then f else f + 1)"

text \<open>
  A non-zero real \<open>x\<close> with \<open>2^e \<le> |x| < 2^(e+1)\<close> lies in the binade \<open>e\<close>. The binary64
  numbers of that binade are the multiples of \<open>2^(e - 52)\<close> (53 significant bits); below
  \<open>2^(-1022)\<close> they are the multiples of \<open>2^(-1074)\<close> (the subnormal numbers). \<open>round64\<close>
  rounds to the nearest such multiple; when the rounded magnitude reaches \<open>2^1024\<close>, which
  is beyond the largest binary64 number, the result is an infinity.
\<close>

definition binade :: "real \<Rightarrow> int" where
  "binade x = \<lfloor>log 2 \<bar>x\<bar>\<rfloor>"

definition quantum_exp :: "real \<Rightarrow> int" where
  "quantum_exp x = max (binade x) (- 1022) - 52"

definition round_to_quantum :: "real \<Rightarrow> real" where
  "round_to_quantum x =
     of_int (round_half_even (x / 2 powi quantum_exp x)) * 2 powi quantum_exp x"

definition overflow_bound :: real where
  "overflow_bound = 2 ^ 1024"

definition round64 :: "real \<Rightarrow> float64" where
  "round64 x =
     (if x = 0 then Fin 0
      else let y = round_to_quantum x
           in if overflow_bound \<le> y then PInf
              else if y \<le> - overflow_bound then NInf
              else Fin y)"

text \<open>
  The operations of the Go source: unary minus, \<^verbatim>\<open>+\<close>, \<^verbatim>\<open>-\<close>, \<^verbatim>\<open>*\<close>, \<^verbatim>\<open>/\<close>. The special
  values follow IEEE 754: \<^verbatim>\<open>math.Inf(1)\<close> is \<open>PInf\<close>, \<^verbatim>\<open>math.Inf(-1)\<close> is \<open>NInf\<close>, NaN
  absorbs, and \<open>inf - inf\<close>, \<open>0 * inf\<close>, \<open>0 / 0\<close>, \<open>inf / inf\<close> are NaN.
\<close>

fun fneg :: "float64 \<Rightarrow> float64" where
  "fneg NaN = NaN"
| "fneg NInf = PInf"
| "fneg (Fin x) = Fin (- x)"
| "fneg PInf = NInf"

fun fadd :: "float64 \<Rightarrow> float64 \<Rightarrow> float64" where
  "fadd NaN _ = NaN"
| "fadd _ NaN = NaN"
| "fadd PInf NInf = NaN"
| "fadd NInf PInf = NaN"
| "fadd PInf _ = PInf"
| "fadd _ PInf = PInf"
| "fadd NInf _ = NInf"
| "fadd _ NInf = NInf"
| "fadd (Fin x) (Fin y) = round64 (x + y)"

definition fsub :: "float64 \<Rightarrow> float64 \<Rightarrow> float64" where
  "fsub x y = fadd x (fneg y)"

fun fmul :: "float64 \<Rightarrow> float64 \<Rightarrow> float64" where
  "fmul NaN _ = NaN"
| "fmul _ NaN = NaN"
| "fmul (Fin x) (Fin y) = round64 (x * y)"
| "fmul (Fin x) PInf = (if x = 0 then NaN else if 0 < x then PInf else NInf)"
| "fmul (Fin x) NInf = (if x = 0 then NaN else if 0 < x then NInf else PInf)"
| "fmul PInf (Fin y) = (if y = 0 then NaN else if 0 < y then PInf else NInf)"
| "fmul NInf (Fin y) = (if y = 0 then NaN else if 0 < y then NInf else PInf)"
| "fmul PInf PInf = PInf"
| "fmul NInf NInf = PInf"
| "fmul PInf NInf = NInf"
| "fmul NInf PInf = NInf"

fun fdiv :: "float64 \<Rightarrow> float64 \<Rightarrow> float64" where
  "fdiv NaN _ = NaN"
| "fdiv _ NaN = NaN"
| "fdiv (Fin x) (Fin y) =
     (if y = 0 then (if x = 0 then NaN else if 0 < x then PInf else NInf)
      else round64 (x / y))"
| "fdiv (Fin x) PInf = Fin 0"
| "fdiv (Fin x) NInf = Fin 0"
| "fdiv PInf (Fin y) = (if 0 \<le> y then PInf else NInf)"
| "fdiv NInf (Fin y) = (if 0 \<le> y then NInf else PInf)"
| "fdiv PInf PInf = NaN"
| "fdiv PInf NInf = NaN"
| "fdiv NInf PInf = NaN"
| "fdiv NInf NInf = NaN"

text \<open>
  \<^verbatim>\<open>math.Sqrt\<close>: the correctly rounded square root, NaN for a negative argument, \<open>+Inf\<close>
  for \<open>+Inf\<close>.
\<close>

fun fsqrt :: "float64 \<Rightarrow> float64" where
  "fsqrt NaN = NaN"
| "fsqrt NInf = NaN"
| "fsqrt (Fin x) = (if x < 0 then NaN else round64 (sqrt x))"
| "fsqrt PInf = PInf"

text \<open>Go's operators \<^verbatim>\<open><\<close> and \<^verbatim>\<open>>\<close> on \<^verbatim>\<open>float64\<close>: false whenever an operand is NaN.\<close>

fun flt :: "float64 \<Rightarrow> float64 \<Rightarrow> bool" where
  "flt NaN _ = False"
| "flt _ NaN = False"
| "flt _ NInf = False"
| "flt NInf _ = True"
| "flt PInf _ = False"
| "flt (Fin x) PInf = True"
| "flt (Fin x) (Fin y) = (x < y)"

definition fgt :: "float64 \<Rightarrow> float64 \<Rightarrow> bool" where
  "fgt x y = flt y x"

text \<open>
  The conversion \<^verbatim>\<open>float64(i)\<close> of an \<^verbatim>\<open>int\<close>: the nearest binary64 number, which is \<open>i\<close>
  itself up to \<open>2^53\<close> in magnitude.
\<close>

definition float64_of_int :: "int \<Rightarrow> float64" where
  "float64_of_int i = round64 (of_int i)"

text \<open>
  \<^verbatim>\<open>slices.Sort\<close> orders a slice by \<^verbatim>\<open>cmp.Less\<close>, which on floating-point numbers is
  \<^verbatim>\<open>(isNaN(x) && !isNaN(y)) || x < y\<close>: NaN comes before every other value. This total
  order is the order instance of \<open>float64\<close>; it agrees with \<open>flt\<close> away from NaN. The
  operators of the Go source are always written \<open>flt\<close> and \<open>fgt\<close>.
\<close>

definition cmp_Less :: "float64 \<Rightarrow> float64 \<Rightarrow> bool" where
  "cmp_Less x y = ((x = NaN \<and> y \<noteq> NaN) \<or> flt x y)"

instantiation float64 :: linorder
begin

definition less_float64 :: "float64 \<Rightarrow> float64 \<Rightarrow> bool" where
  "less_float64 x y = cmp_Less x y"

definition less_eq_float64 :: "float64 \<Rightarrow> float64 \<Rightarrow> bool" where
  "less_eq_float64 x y = (\<not> cmp_Less y x)"

instance
proof
  fix x y z :: float64
  show "(x < y) = (x \<le> y \<and> \<not> y \<le> x)"
    by (cases x; cases y) (auto simp: less_float64_def less_eq_float64_def cmp_Less_def)
  show "x \<le> x"
    by (cases x) (auto simp: less_eq_float64_def cmp_Less_def)
  show "x \<le> y \<Longrightarrow> y \<le> z \<Longrightarrow> x \<le> z"
    by (cases x; cases y; cases z) (auto simp: less_eq_float64_def cmp_Less_def)
  show "x \<le> y \<Longrightarrow> y \<le> x \<Longrightarrow> x = y"
    by (cases x; cases y) (auto simp: less_eq_float64_def cmp_Less_def)
  show "x \<le> y \<or> y \<le> x"
    by (cases x; cases y) (auto simp: less_eq_float64_def cmp_Less_def)
qed

end

text \<open>\<^verbatim>\<open>slices.Sort\<close> (the standard library's): the ascending arrangement of the slice.\<close>

definition slices_Sort :: "float64 list \<Rightarrow> float64 list" where
  "slices_Sort xs = sort xs"

section \<open>Records and slices\<close>

record Record =
  ID :: int
  Value :: float64

text \<open>
  Indexing a slice panics outside \<open>0 \<le> i < len\<close>; the panic is a value of the model.
  Indices are Go \<^verbatim>\<open>int\<close>s.
\<close>

datatype panic = IndexOutOfRange int nat | MakeSliceLenOutOfRange

definition slice_get :: "'a list \<Rightarrow> int \<Rightarrow> panic + 'a" where
  "slice_get xs i =
     (if 0 \<le> i \<and> i < int (length xs) then Inr (xs ! nat i)
      else Inl (IndexOutOfRange i (length xs)))"

definition slice_set :: "'a list \<Rightarrow> int \<Rightarrow> 'a \<Rightarrow> panic + 'a list" where
  "slice_set xs i v =
     (if 0 \<le> i \<and> i < int (length xs) then Inr (xs[nat i := v])
      else Inl (IndexOutOfRange i (length xs)))"

section \<open>In-memory statistics (\<^verbatim>\<open>StatisticsFromRecords\<close>)\<close>

type_synonym stats = "float64 \<times> float64 \<times> float64 \<times> float64 \<times> float64"

text \<open>
  The first loop (lines 44 to 53), over \<^verbatim>\<open>for i, r := range records\<close>; the state is
  \<open>(max, min, sum, values)\<close>.
\<close>

fun first_loop ::
  "Record list \<Rightarrow> int \<Rightarrow> float64 \<times> float64 \<times> float64 \<times> float64 list \<Rightarrow>
   panic + (float64 \<times> float64 \<times> float64 \<times> float64 list)" where
  "first_loop [] i st = Inr st"
| "first_loop (r # rs) i (mx, mn, sm, vals) =
     (let mx' = (if fgt (Value r) mx then Value r else mx);
          mn' = (if flt (Value r) mn then Value r else mn);
          sm' = fadd sm (Value r)
      in case slice_set vals i (Value r) of
           Inl p \<Rightarrow> Inl p
         | Inr vals' \<Rightarrow> first_loop rs (i + 1) (mx', mn', sm', vals'))"

text \<open>The second loop (lines 57 to 59) accumulates the squared deviations in \<open>stddev\<close>.\<close>

fun second_loop :: "Record list \<Rightarrow> float64 \<Rightarrow> float64 \<Rightarrow> float64" where
  "second_loop [] mean sd = sd"
| "second_loop (r # rs) mean sd =
     second_loop rs mean (fadd sd (fmul (fsub (Value r) mean) (fsub (Value r) mean)))"

text \<open>Lines 62 to 66: the median of the sorted values, with both index checks.\<close>

definition median_of :: "float64 list \<Rightarrow> panic + float64" where
  "median_of vals =
     (let len = int (length vals) in
      if len mod 2 = 0 then
        (case slice_get vals (len div 2 - 1) of
           Inl p \<Rightarrow> Inl p
         | Inr a \<Rightarrow>
             (case slice_get vals (len div 2) of
                Inl p \<Rightarrow> Inl p
              | Inr b \<Rightarrow> Inr (fdiv (fadd a b) (Fin 2))))
      else slice_get vals (len div 2))"

definition StatisticsFromRecords :: "Record list \<Rightarrow> panic + stats" where
  "StatisticsFromRecords records =
     (case first_loop records 0 (NInf, PInf, Fin 0, replicate (length records) (Fin 0)) of
        Inl p \<Rightarrow> Inl p
      | Inr (mx, mn, sm, vals) \<Rightarrow>
          (let sorted_vals = slices_Sort vals;
               mean = fdiv sm (float64_of_int (int (length records)));
               stddev = fsqrt (fdiv (second_loop records mean (Fin 0))
                                    (float64_of_int (int (length records))))
           in case median_of sorted_vals of
                Inl p \<Rightarrow> Inl p
              | Inr median \<Rightarrow> Inr (mean, median, stddev, mn, mx)))"

text \<open>
  The guarded embedding: \<open>None\<close> as soon as a slice index is out of bounds or a
  floating-point division has a zero divisor (which in Go does not panic, but yields an
  infinity or NaN). The integer divisions \<^verbatim>\<open>len(values)/2\<close> and \<^verbatim>\<open>len(values)%2\<close> have
  the constant divisor 2.
\<close>

definition checked :: "panic + 'a \<Rightarrow> 'a option" where
  "checked r = (case r of Inl p \<Rightarrow> None | Inr v \<Rightarrow> Some v)"

definition checked_fdiv :: "float64 \<Rightarrow> float64 \<Rightarrow> float64 option" where
  "checked_fdiv x y = (if y = Fin 0 then None else Some (fdiv x y))"

definition median_guarded :: "float64 list \<Rightarrow> float64 option" where
  "median_guarded vals =
     (let len = int (length vals) in
      if len mod 2 = 0 then
        (case checked (slice_get vals (len div 2 - 1)) of
           None \<Rightarrow> None
         | Some a \<Rightarrow>
             (case checked (slice_get vals (len div 2)) of
                None \<Rightarrow> None
              | Some b \<Rightarrow> checked_fdiv (fadd a b) (Fin 2)))
      else checked (slice_get vals (len div 2)))"

definition StatisticsFromRecords_guarded :: "Record list \<Rightarrow> stats option" where
  "StatisticsFromRecords_guarded records =
     (case checked (first_loop records 0
                      (NInf, PInf, Fin 0, replicate (length records) (Fin 0))) of
        None \<Rightarrow> None
      | Some (mx, mn, sm, vals) \<Rightarrow>
          (case checked_fdiv sm (float64_of_int (int (length records))) of
             None \<Rightarrow> None
           | Some mean \<Rightarrow>
               (case checked_fdiv (second_loop records mean (Fin 0))
                       (float64_of_int (int (length records))) of
                  None \<Rightarrow> None
                | Some var \<Rightarrow>
                    (case median_guarded (slices_Sort vals) of
                       None \<Rightarrow> None
                     | Some median \<Rightarrow> Some (mean, median, fsqrt var, mn, mx)))))"

subsection \<open>The statistics in the specification's words\<close>

text \<open>
  The sum of the values, their arithmetic average, the population standard deviation
  (the sum of squared deviations from the mean divided by the count \<open>N\<close>, not \<open>N - 1\<close>) and
  the median of a sorted sequence (the average of the two middle values for an even
  count, the single middle value for an odd count), all in \<^verbatim>\<open>float64\<close> arithmetic. A sum
  is accumulated from \<open>0.0\<close> in the order of the list: each addition rounds, so the order
  matters.
\<close>

definition spec_sum :: "float64 list \<Rightarrow> float64" where
  "spec_sum vs = foldl fadd (Fin 0) vs"

definition spec_mean :: "float64 list \<Rightarrow> float64" where
  "spec_mean vs = fdiv (spec_sum vs) (float64_of_int (int (length vs)))"

definition spec_population_stddev :: "float64 list \<Rightarrow> float64" where
  "spec_population_stddev vs =
     fsqrt (fdiv (spec_sum (map (\<lambda>v. fmul (fsub v (spec_mean vs)) (fsub v (spec_mean vs))) vs))
                 (float64_of_int (int (length vs))))"

definition spec_median :: "float64 list \<Rightarrow> float64" where
  "spec_median s =
     (if even (length s)
      then fdiv (fadd (s ! (length s div 2 - 1)) (s ! (length s div 2))) (Fin 2)
      else s ! (length s div 2))"

text \<open>The running extrema of the first loop, from the initial values of the accumulators.\<close>

definition running_max :: "float64 \<Rightarrow> float64 list \<Rightarrow> float64" where
  "running_max m vs = foldl (\<lambda>m v. if fgt v m then v else m) m vs"

definition running_min :: "float64 \<Rightarrow> float64 list \<Rightarrow> float64" where
  "running_min m vs = foldl (\<lambda>m v. if flt v m then v else m) m vs"

section \<open>The record generator (\<^verbatim>\<open>main\<close>, lines 124 to 131)\<close>

text \<open>
  \<^verbatim>\<open>make([]Record, N)\<close> panics for a negative length and otherwise yields \<open>N\<close> zero
  records; the loop \<^verbatim>\<open>for i := 0; i < N; i++\<close> then stores record \<open>i\<close> at index \<open>i\<close>.
  The source fixes \<open>N = 1000000\<close>; here \<open>N\<close> is a parameter. The counter \<open>i\<close> never exceeds
  \<open>N\<close>, so the 64-bit \<^verbatim>\<open>int\<close> of the source does not overflow and is modelled by \<open>int\<close>.
\<close>

definition make_slice :: "int \<Rightarrow> 'a \<Rightarrow> panic + 'a list" where
  "make_slice n zero =
     (if n < 0 then Inl MakeSliceLenOutOfRange else Inr (replicate (nat n) zero))"

function gen_loop :: "int \<Rightarrow> int \<Rightarrow> Record list \<Rightarrow> panic + Record list" where
  "gen_loop i N recs =
     (if i < N then
        (case slice_set recs i \<lparr>ID = i, Value = float64_of_int i\<rparr> of
           Inl p \<Rightarrow> Inl p
         | Inr recs' \<Rightarrow> gen_loop (i + 1) N recs')
      else Inr recs)"
  by pat_completeness auto
termination
  by (relation "measure (\<lambda>(i, N, recs). nat (N - i))") auto

declare gen_loop.simps [simp del]

definition generate_records :: "int \<Rightarrow> panic + Record list" where
  "generate_records N =
     (case make_slice N \<lparr>ID = 0, Value = Fin 0\<rparr> of
        Inl p \<Rightarrow> Inl p
      | Inr recs \<Rightarrow> gen_loop 0 N recs)"

section \<open>\<^verbatim>\<open>StatisticsFromRecords\<close> on an explicit store\<close>

text \<open>
  In Go a slice shares its backing array with the caller, so whether the function leaves
  its input unchanged depends on which arrays it writes. Here the arrays live in a store:
  a slice is the address of its backing array, which it spans; \<^verbatim>\<open>make\<close> allocates the next
  free address; \<^verbatim>\<open>values[i] = r.Value\<close> and \<^verbatim>\<open>slices.Sort(values)\<close> write the array at
  the address of \<^verbatim>\<open>values\<close>; \<^verbatim>\<open>range records\<close> and the second loop read the array at the
  address of \<^verbatim>\<open>records\<close>, element by element. An address that holds no array of the
  expected kind reads as the nil slice.
\<close>

datatype obj = RecordArray "Record list" | Float64Array "float64 list"

record heap =
  cells :: "nat \<Rightarrow> obj option"
  next_free :: nat

definition wf_heap :: "heap \<Rightarrow> bool" where
  "wf_heap h = (\<forall>a. next_free h \<le> a \<longrightarrow> cells h a = None)"

definition alloc :: "obj \<Rightarrow> heap \<Rightarrow> nat \<times> heap" where
  "alloc ob h =
     (next_free h, h\<lparr>cells := (cells h)(next_free h \<mapsto> ob), next_free := Suc (next_free h)\<rparr>)"

definition load_records :: "heap \<Rightarrow> nat \<Rightarrow> Record list" where
  "load_records h a = (case cells h a of Some (RecordArray rs) \<Rightarrow> rs | _ \<Rightarrow> [])"

definition load_floats :: "heap \<Rightarrow> nat \<Rightarrow> float64 list" where
  "load_floats h a = (case cells h a of Some (Float64Array vs) \<Rightarrow> vs | _ \<Rightarrow> [])"

definition store_floats :: "heap \<Rightarrow> nat \<Rightarrow> float64 list \<Rightarrow> heap" where
  "store_floats h a vs = h\<lparr>cells := (cells h)(a \<mapsto> Float64Array vs)\<rparr>"

fun first_loop_heap ::
  "nat \<Rightarrow> nat \<Rightarrow> nat \<Rightarrow> int \<Rightarrow> float64 \<times> float64 \<times> float64 \<Rightarrow> heap \<Rightarrow>
   (panic + (float64 \<times> float64 \<times> float64)) \<times> heap" where
  "first_loop_heap 0 ra va i st h = (Inr st, h)"
| "first_loop_heap (Suc k) ra va i (mx, mn, sm) h =
     (case slice_get (load_records h ra) i of
        Inl p \<Rightarrow> (Inl p, h)
      | Inr r \<Rightarrow>
          (let mx' = (if fgt (Value r) mx then Value r else mx);
               mn' = (if flt (Value r) mn then Value r else mn);
               sm' = fadd sm (Value r)
           in case slice_set (load_floats h va) i (Value r) of
                Inl p \<Rightarrow> (Inl p, h)
              | Inr vals' \<Rightarrow>
                  first_loop_heap k ra va (i + 1) (mx', mn', sm') (store_floats h va vals')))"

fun second_loop_heap ::
  "nat \<Rightarrow> nat \<Rightarrow> int \<Rightarrow> float64 \<Rightarrow> float64 \<Rightarrow> heap \<Rightarrow> panic + float64" where
  "second_loop_heap 0 ra i mean sd h = Inr sd"
| "second_loop_heap (Suc k) ra i mean sd h =
     (case slice_get (load_records h ra) i of
        Inl p \<Rightarrow> Inl p
      | Inr r \<Rightarrow>
          second_loop_heap k ra (i + 1) mean
            (fadd sd (fmul (fsub (Value r) mean) (fsub (Value r) mean))) h)"

definition StatisticsFromRecords_heap :: "nat \<Rightarrow> heap \<Rightarrow> (panic + stats) \<times> heap" where
  "StatisticsFromRecords_heap ra h =
     (let n = length (load_records h ra);
          (va, h1) = alloc (Float64Array (replicate n (Fin 0))) h
      in case first_loop_heap n ra va 0 (NInf, PInf, Fin 0) h1 of
           (Inl p, h2) \<Rightarrow> (Inl p, h2)
         | (Inr (mx, mn, sm), h2) \<Rightarrow>
             (let h3 = store_floats h2 va (slices_Sort (load_floats h2 va));
                  mean = fdiv sm (float64_of_int (int n))
              in case second_loop_heap n ra 0 mean (Fin 0) h3 of
                   Inl p \<Rightarrow> (Inl p, h3)
                 | Inr sq \<Rightarrow>
                     (let stddev = fsqrt (fdiv sq (float64_of_int (int n)))
                      in case median_of (load_floats h3 va) of
                           Inl p \<Rightarrow> (Inl p, h3)
                         | Inr median \<Rightarrow> (Inr (mean, median, stddev, mn, mx), h3))))"

section \<open>The database interface\<close>

text \<open>
  The programs reach the database through Go's \<^verbatim>\<open>database/sql\<close>; the engine and its
  driver are external. A driver is modelled by what the programs observe of it:
  \<^verbatim>\<open>db.Exec(query, args...)\<close> takes the state of the database to a new state and an
  optional error, \<^verbatim>\<open>db.Query(query)\<close> yields an error or the rows of the result set, each
  row a list of columns, a column being NULL (\<open>None\<close>) or a value. The type \<open>'c\<close> is the
  type of the values a program passes and scans (\<^verbatim>\<open>float64\<close> in the benchmark, \<^verbatim>\<open>int\<close> in
  the basic demo). \<^verbatim>\<open>sql.Open\<close> yields an error or the initial state.
\<close>

datatype error = EngineError string | ScanArity nat nat | ScanNull

record ('s, 'c) driver =
  Exec :: "'s \<Rightarrow> string \<Rightarrow> 'c list \<Rightarrow> error option \<times> 's"
  Query :: "'s \<Rightarrow> string \<Rightarrow> error + 'c option list list"

section \<open>The statistics benchmark (\<^verbatim>\<open>cmd/statistics/statistics.go\<close>)\<close>

text \<open>
  The statement of \<^verbatim>\<open>CreateRecordsTable\<close> (lines 26 to 29), a raw string literal: it
  keeps the newlines (\<open>0x0A\<close>) and the tabs (\<open>0x09\<close>) of the source, and holds two
  apostrophes (\<open>0x27\<close>).
\<close>

definition CREATE_RECORDS :: string where
  "CREATE_RECORDS =
     [CHR 0x0A, CHR 0x09, CHR 0x09] @ ''CREATE SEQUENCE seq_records_id START 1;'' @
     [CHR 0x0A, CHR 0x09, CHR 0x09] @
     ''CREATE TABLE records (id INTEGER DEFAULT nextval('' @ [CHR 0x27] @ ''seq_records_id'' @
     [CHR 0x27] @ ''), value DOUBLE)'' @ [CHR 0x0A, CHR 0x09]"

definition CreateDB :: "error + 's \<Rightarrow> error + 's" where
  "CreateDB opened = (case opened of Inl err \<Rightarrow> Inl err | Inr db \<Rightarrow> Inr db)"

definition CreateRecordsTable :: "('s, 'c) driver \<Rightarrow> 's \<Rightarrow> error option \<times> 's" where
  "CreateRecordsTable d db =
     (case Exec d db CREATE_RECORDS [] of
        (Some err, db') \<Rightarrow> (Some err, db')
      | (None, db') \<Rightarrow> (None, db'))"

text \<open>\<^verbatim>\<open>StandardInsert\<close> (lines 88 to 104): the loop over the records, then the function.\<close>

fun insert_loop :: "('s, float64) driver \<Rightarrow> Record list \<Rightarrow> 's \<Rightarrow> error option \<times> 's" where
  "insert_loop d [] db = (None, db)"
| "insert_loop d (r # rs) db =
     (case Exec d db ''INSERT INTO records (value) VALUES (?)'' [Value r] of
        (Some err, db') \<Rightarrow> (Some err, db')
      | (None, db') \<Rightarrow> insert_loop d rs db')"

definition StandardInsert ::
  "('s, float64) driver \<Rightarrow> Record list \<Rightarrow> 's \<Rightarrow> error option \<times> 's" where
  "StandardInsert d records db =
     (case Exec d db ''BEGIN TRANSACTION'' [] of
        (Some err, db') \<Rightarrow> (Some err, db')
      | (None, db') \<Rightarrow>
          (case insert_loop d records db' of
             (Some err, db'') \<Rightarrow> (Some err, db'')
           | (None, db'') \<Rightarrow>
               (case Exec d db'' ''COMMIT'' [] of
                  (Some err, db''') \<Rightarrow> (Some err, db''')
                | (None, db''') \<Rightarrow> (None, db'''))))"

text \<open>
  To observe the statements a function issues, a driver is wrapped so that its state
  also carries the list of the calls made so far, in order. \<open>insert_script\<close> is the
  sequence of calls the specification describes: begin, one parameterized insert per
  record in list order, commit. \<open>replay\<close> executes a list of calls one after the other,
  whatever they return, and collects their results.
\<close>

type_synonym 'c call = "string \<times> 'c list"

definition logging :: "('s, 'c) driver \<Rightarrow> ('s \<times> 'c call list, 'c) driver" where
  "logging d =
     \<lparr>Exec = (\<lambda>(db, issued) q args.
               case Exec d db q args of (e, db') \<Rightarrow> (e, (db', issued @ [(q, args)]))),
      Query = (\<lambda>(db, issued) q. Query d db q)\<rparr>"

definition insert_script :: "Record list \<Rightarrow> float64 call list" where
  "insert_script records =
     (''BEGIN TRANSACTION'', []) #
     map (\<lambda>r. (''INSERT INTO records (value) VALUES (?)'', [Value r])) records @
     [(''COMMIT'', [])]"

fun replay :: "('s, 'c) driver \<Rightarrow> 's \<Rightarrow> 'c call list \<Rightarrow> error option list \<times> 's" where
  "replay d db [] = ([], db)"
| "replay d db ((q, args) # cs) =
     (case Exec d db q args of
        (e, db') \<Rightarrow> (case replay d db' cs of (es, db'') \<Rightarrow> (e # es, db'')))"

text \<open>
  \<^verbatim>\<open>StatisticsFromDB\<close> (lines 71 to 86). The local variables are a record, a destination
  pointer names the variable it points to, and \<^verbatim>\<open>rows.Scan(dest...)\<close> stores column \<open>k\<close>
  of the row in the \<open>k\<close>-th destination; it fails when the number of destinations is not
  the number of columns, or on a NULL column. \<^verbatim>\<open>log.Fatal\<close> logs its operands and exits
  with status 1: the function then returns nothing, which is the value \<open>Inl (Fatal ...)\<close>.
\<close>

definition AGGREGATE_QUERY :: string where
  "AGGREGATE_QUERY =
     ''SELECT AVG(value), MEDIAN(value), STDDEV_POP(value), MIN(value), MAX(value) FROM records''"

record locals =
  mean_var :: float64
  median_var :: float64
  stddev_var :: float64
  min_var :: float64
  max_var :: float64

datatype dest = Ptr_mean | Ptr_median | Ptr_stddev | Ptr_min | Ptr_max

fun assign :: "dest \<Rightarrow> float64 \<Rightarrow> locals \<Rightarrow> locals" where
  "assign Ptr_mean v l = l\<lparr>mean_var := v\<rparr>"
| "assign Ptr_median v l = l\<lparr>median_var := v\<rparr>"
| "assign Ptr_stddev v l = l\<lparr>stddev_var := v\<rparr>"
| "assign Ptr_min v l = l\<lparr>min_var := v\<rparr>"
| "assign Ptr_max v l = l\<lparr>max_var := v\<rparr>"

fun scan_columns :: "float64 option list \<Rightarrow> dest list \<Rightarrow> locals \<Rightarrow> error + locals" where
  "scan_columns (Some v # cs) (p # ps) l = scan_columns cs ps (assign p v l)"
| "scan_columns (None # cs) (p # ps) l = Inl ScanNull"
| "scan_columns cs ps l = Inr l"

definition Scan :: "float64 option list \<Rightarrow> dest list \<Rightarrow> locals \<Rightarrow> error + locals" where
  "Scan row ps l =
     (if length ps \<noteq> length row then Inl (ScanArity (length row) (length ps))
      else scan_columns row ps l)"

text \<open>\<^verbatim>\<open>var mean, median, stddev, min, max float64\<close>: the variables start at zero.\<close>

definition zero_locals :: locals where
  "zero_locals =
     \<lparr>mean_var = Fin 0, median_var = Fin 0, stddev_var = Fin 0, min_var = Fin 0,
      max_var = Fin 0\<rparr>"

datatype fatal = Fatal string "error option"

definition StatisticsFromDB :: "('s, float64) driver \<Rightarrow> 's \<Rightarrow> fatal + stats" where
  "StatisticsFromDB d db =
     (case Query d db AGGREGATE_QUERY of
        Inl err \<Rightarrow> Inl (Fatal [] (Some err))
      | Inr [] \<Rightarrow> Inl (Fatal ''No rows returned'' None)
      | Inr (row # rest) \<Rightarrow>
          (case Scan row [Ptr_mean, Ptr_median, Ptr_stddev, Ptr_max, Ptr_min] zero_locals of
             Inl err \<Rightarrow> Inl (Fatal [] (Some err))
           | Inr l \<Rightarrow> Inr (mean_var l, median_var l, stddev_var l, min_var l, max_var l)))"

text \<open>
  \<^verbatim>\<open>main\<close> (lines 111 to 153), with the record count \<open>N\<close> as a parameter (the source fixes
  1000000) and without the timing and the printing: the run ends in a fatal log, in a
  panic, or with the statistics computed from the records and by the database.
\<close>

datatype main_result = MainFatal fatal | MainPanic panic | MainDone stats stats

definition stats_main :: "('s, float64) driver \<Rightarrow> error + 's \<Rightarrow> int \<Rightarrow> main_result" where
  "stats_main d opened N =
     (case CreateDB opened of
        Inl err \<Rightarrow> MainFatal (Fatal ''Error creating DuckDB database'' (Some err))
      | Inr db \<Rightarrow>
          (case CreateRecordsTable d db of
             (Some err, db1) \<Rightarrow> MainFatal (Fatal ''Error creating records table'' (Some err))
           | (None, db1) \<Rightarrow>
               (case generate_records N of
                  Inl p \<Rightarrow> MainPanic p
                | Inr records \<Rightarrow>
                    (case StandardInsert d records db1 of
                       (Some err, db2) \<Rightarrow>
                         MainFatal (Fatal ''Error inserting records'' (Some err))
                     | (None, db2) \<Rightarrow>
                         (case StatisticsFromRecords records of
                            Inl p \<Rightarrow> MainPanic p
                          | Inr in_memory \<Rightarrow>
                              (case StatisticsFromDB d db2 of
                                 Inl f \<Rightarrow> MainFatal f
                               | Inr from_db \<Rightarrow> MainDone in_memory from_db))))))"

section \<open>The basic demo (\<^verbatim>\<open>cmd/basic/basic.go\<close>)\<close>

text \<open>
  The output is the list of lines printed by \<^verbatim>\<open>fmt.Println\<close>; the run ends by returning
  from \<^verbatim>\<open>main\<close> (status 0), by \<^verbatim>\<open>os.Exit\<close>, or by the nil dereference of calling a method
  on the nil handle that \<^verbatim>\<open>sql.Open\<close> and \<^verbatim>\<open>db.Query\<close> return with an error (the program
  discards both errors). \<^verbatim>\<open>rows.Scan(&i)\<close> leaves \<open>i\<close> at zero when it fails, and its error
  is discarded too. The text of the insert statement is a parameter of \<open>basic_run\<close>;
  \<open>basic_main\<close> is the program, with the text of line 20.
\<close>

datatype line = ErrLine error | IntLine int

datatype ending = Returned | Exited int | NilDereference

fun basic_inserts ::
  "string \<Rightarrow> ('s, int) driver \<Rightarrow> int list \<Rightarrow> 's \<Rightarrow> error option \<times> 's" where
  "basic_inserts stmt d [] db = (None, db)"
| "basic_inserts stmt d (i # is) db =
     (case Exec d db stmt [i] of
        (Some err, db') \<Rightarrow> (Some err, db')
      | (None, db') \<Rightarrow> basic_inserts stmt d is db')"

definition Scan_int :: "int option list \<Rightarrow> error + int" where
  "Scan_int row =
     (case row of
        [Some v] \<Rightarrow> Inr v
      | [None] \<Rightarrow> Inl ScanNull
      | _ \<Rightarrow> Inl (ScanArity (length row) 1))"

definition print_row :: "int option list \<Rightarrow> line" where
  "print_row row = (case Scan_int row of Inl err \<Rightarrow> IntLine 0 | Inr v \<Rightarrow> IntLine v)"

definition basic_run ::
  "string \<Rightarrow> ('s, int) driver \<Rightarrow> error + 's \<Rightarrow> line list \<times> ending" where
  "basic_run stmt d opened =
     (case opened of
        Inl err \<Rightarrow> ([], NilDereference)
      | Inr db \<Rightarrow>
          (case Exec d db ''CREATE TABLE t (i INTEGER)'' [] of
             (Some err, db1) \<Rightarrow> ([ErrLine err], Exited 1)
           | (None, db1) \<Rightarrow>
               (case basic_inserts stmt d [0..9] db1 of
                  (Some err, db2) \<Rightarrow> ([ErrLine err], Exited 1)
                | (None, db2) \<Rightarrow>
                    (case Query d db2 ''SELECT * FROM t'' of
                       Inl err \<Rightarrow> ([], NilDereference)
                     | Inr rows \<Rightarrow> (map print_row rows, Returned)))))"

definition basic_main :: "('s, int) driver \<Rightarrow> error + 's \<Rightarrow> line list \<times> ending" where
  "basic_main = basic_run ''INSERT INTO t VALUES (%s)''"

section \<open>Concrete drivers\<close>

text \<open>
  \<open>scripted fails answer\<close> is a driver whose state counts the statements executed: the
  \<open>n\<close>-th statement (from 0) returns \<open>fails n\<close>, and every query returns \<open>answer\<close>.
\<close>

definition scripted ::
  "(nat \<Rightarrow> error option) \<Rightarrow> error + 'c option list list \<Rightarrow> (nat, 'c) driver" where
  "scripted fails answer = \<lparr>Exec = (\<lambda>n q args. (fails n, Suc n)), Query = (\<lambda>n q. answer)\<rparr>"

text \<open>
  Modelled from the spec: the database engine, which is not part of the repository.
  Section 6 gives the schema and the query surface: the table \<open>t(i INTEGER)\<close> with
  parameterized single-row inserts and one plain \<^verbatim>\<open>SELECT *\<close>; the table
  \<open>records(id, value DOUBLE)\<close> with parameterized single-row inserts and one aggregate
  query for the average, the median, the population standard deviation, the minimum and
  the maximum (all NULL over an empty table). A parameter is written \<open>?\<close>; any other
  statement is a syntax error. The state is the list of the values inserted;
  transactions are not modelled, as the programs commit before they query.
\<close>

definition t_engine :: "(int list, int) driver" where
  "t_engine =
     \<lparr>Exec = (\<lambda>tbl q args.
        if q = ''CREATE TABLE t (i INTEGER)'' \<and> args = [] then (None, tbl)
        else if q = ''INSERT INTO t VALUES (?)'' \<and> length args = 1 then (None, tbl @ args)
        else (Some (EngineError ''syntax error''), tbl)),
      Query = (\<lambda>tbl q.
        if q = ''SELECT * FROM t'' then Inr (map (\<lambda>v. [Some v]) tbl)
        else Inl (EngineError ''syntax error''))\<rparr>"

definition aggregate_row :: "float64 list \<Rightarrow> float64 option list" where
  "aggregate_row tbl =
     (if tbl = [] then [None, None, None, None, None]
      else [Some (spec_mean tbl), Some (spec_median (sort tbl)),
            Some (spec_population_stddev tbl), Some (Min (set tbl)), Some (Max (set tbl))])"

definition records_engine :: "(float64 list, float64) driver" where
  "records_engine =
     \<lparr>Exec = (\<lambda>tbl q args.
        if q = ''INSERT INTO records (value) VALUES (?)'' \<and> length args = 1
        then (None, tbl @ args)
        else if (q = CREATE_RECORDS \<or> q = ''BEGIN TRANSACTION'' \<or> q = ''COMMIT'') \<and> args = []
        then (None, tbl)
        else (Some (EngineError ''syntax error''), tbl)),
      Query = (\<lambda>tbl q.
        if q = AGGREGATE_QUERY then Inr [aggregate_row tbl]
        else Inl (EngineError ''syntax error''))\<rparr>"

section \<open>Properties of the rounding\<close>

text \<open>
  \<open>round64\<close> is exact on the binary64 numbers (\<open>round64_exact\<close>), monotone on the
  non-negative reals (\<open>round64_mono\<close>), and within half a quantum of its argument
  (\<open>round_to_quantum_error\<close>).
\<close>

lemma round_half_even_int [simp]: "round_half_even (of_int k) = k"
  by (simp add: round_half_even_def)

lemma round_half_even_0 [simp]: "round_half_even 0 = 0"
  using round_half_even_int [of 0] by simp


lemma round_half_even_mono:
  assumes "a \<le> b" shows "round_half_even a \<le> round_half_even b"
proof (cases "\<lfloor>a\<rfloor> = \<lfloor>b\<rfloor>")
  case True
  then show ?thesis using assms unfolding round_half_even_def Let_def by auto
next
  case False
  then have lt: "\<lfloor>a\<rfloor> < \<lfloor>b\<rfloor>" using assms floor_mono [of a b] by linarith
  have "round_half_even a \<le> \<lfloor>a\<rfloor> + 1" unfolding round_half_even_def Let_def by auto
  moreover have "\<lfloor>b\<rfloor> \<le> round_half_even b" unfolding round_half_even_def Let_def by auto
  ultimately show ?thesis using lt by linarith
qed

lemma powr_powi_two: "2 powr (of_int k) = (2::real) powi k"
  by (rule powr_real_of_int') simp_all

lemma powr_powi_two_Suc: "2 powr (of_int k + 1) = (2::real) powi (k + 1)"
  using powr_powi_two [of "k + 1"] by simp

lemma binade_eq:
  assumes "x \<noteq> 0" "2 powi k \<le> \<bar>x\<bar>" "\<bar>x\<bar> < 2 powi (k + 1)"
  shows "binade x = k"
proof -
  have pos: "0 < \<bar>x\<bar>" using assms by simp
  have "2 powr (of_int k) \<le> \<bar>x\<bar> \<and> \<bar>x\<bar> < 2 powr (of_int k + 1)"
    unfolding powr_powi_two powr_powi_two_Suc using assms by simp
  then show ?thesis
    unfolding binade_def using pos floor_log_eq_powr_iff [of "\<bar>x\<bar>" 2 k] by simp
qed

lemma binade_bounds:
  assumes "x \<noteq> 0"
  shows "2 powi (binade x) \<le> \<bar>x\<bar> \<and> \<bar>x\<bar> < 2 powi (binade x + 1)"
proof -
  have pos: "0 < \<bar>x\<bar>" using assms by simp
  have "2 powr (of_int (binade x)) \<le> \<bar>x\<bar> \<and> \<bar>x\<bar> < 2 powr (of_int (binade x) + 1)"
    using floor_log_eq_powr_iff [of "\<bar>x\<bar>" 2 "binade x"] pos by (simp add: binade_def)
  then show ?thesis
    unfolding powr_powi_two powr_powi_two_Suc .
qed

lemma Fin_le_iff [simp]: "(Fin a \<le> Fin b) = (a \<le> b)"
  by (auto simp: less_eq_float64_def cmp_Less_def)

lemma two_powi_less_cancel: "(2::real) powi a < 2 powi b \<Longrightarrow> a < b"
  using power_int_increasing [of b a "2::real"] by (cases "a < b") auto

lemma round_to_quantum_exact:
  assumes x: "x = of_int m * 2 powi k" and m: "\<bar>m\<bar> < 2 ^ 53" and k: "- 1074 \<le> k"
  shows "round_to_quantum x = x"
proof (cases "x = 0")
  case True
  then show ?thesis by (simp add: round_to_quantum_def)
next
  case False
  define q where "q = quantum_exp x"
  have "\<bar>x\<bar> = of_int \<bar>m\<bar> * 2 powi k" unfolding x by (simp add: abs_mult)
  also have "\<dots> < 2 ^ 53 * 2 powi k"
  proof (rule mult_strict_right_mono)
    have "real_of_int \<bar>m\<bar> < real_of_int (2 ^ 53)" using m by (simp only: of_int_less_iff)
    then show "real_of_int \<bar>m\<bar> < 2 ^ 53" by simp
    show "(0::real) < 2 powi k" by simp
  qed
  also have "\<dots> = 2 powi (k + 53)" by (simp add: power_int_add)
  finally have "2 powi (binade x) < (2::real) powi (k + 53)"
    using binade_bounds [OF False] by linarith
  then have "binade x < k + 53" by (rule two_powi_less_cancel)
  then have qk: "q \<le> k" using k by (simp add: quantum_exp_def q_def)
  have split: "(2::real) powi k = 2 powi (k - q) * 2 powi q"
    by (simp flip: power_int_add)
  have nz: "(2::real) powi q \<noteq> 0" by simp
  have "x / 2 powi q = of_int m * 2 powi (k - q)"
    unfolding x split using nz by simp
  also have "\<dots> = of_int (m * 2 ^ nat (k - q))"
    using qk by (simp add: power_int_nonneg_exp)
  finally have "round_half_even (x / 2 powi q) = m * 2 ^ nat (k - q)"
    by (simp only: round_half_even_int)
  then have "round_to_quantum x = of_int (m * 2 ^ nat (k - q)) * 2 powi q"
    by (simp add: round_to_quantum_def q_def)
  also have "\<dots> = of_int m * (2 powi (k - q) * 2 powi q)"
    using qk by (simp add: power_int_nonneg_exp)
  also have "\<dots> = x" unfolding x split ..
  finally show ?thesis .
qed

lemma round64_exact:
  assumes "x = of_int m * 2 powi k" "\<bar>m\<bar> < 2 ^ 53" "- 1074 \<le> k" "\<bar>x\<bar> < overflow_bound"
  shows "round64 x = Fin x"
  using assms(4) round_to_quantum_exact [OF assms(1-3)]
  by (auto simp: round64_def Let_def)

lemma Fin_le_PInf [simp]: "Fin a \<le> PInf"
  by (simp add: less_eq_float64_def cmp_Less_def)

lemma binade_mono:
  assumes "0 < x" "x \<le> y"
  shows "binade x \<le> binade y"
proof -
  have "2 powi binade x \<le> \<bar>x\<bar>" using binade_bounds [of x] assms by simp
  moreover have "\<bar>y\<bar> < 2 powi (binade y + 1)" using binade_bounds [of y] assms by simp
  ultimately have "(2::real) powi binade x < 2 powi (binade y + 1)" using assms by linarith
  then have "binade x < binade y + 1" by (rule two_powi_less_cancel)
  then show ?thesis by simp
qed

lemma round_to_quantum_nonneg:
  assumes "0 \<le> x" shows "0 \<le> round_to_quantum x"
proof -
  have "0 \<le> x / 2 powi quantum_exp x" using assms by simp
  then have "round_half_even 0 \<le> round_half_even (x / 2 powi quantum_exp x)"
    by (rule round_half_even_mono)
  then show ?thesis by (simp add: round_to_quantum_def)
qed

lemma round_to_quantum_mono:
  assumes pos: "0 < x" and le: "x \<le> y"
  shows "round_to_quantum x \<le> round_to_quantum y"
proof -
  define qx where "qx = quantum_exp x"
  define qy where "qy = quantum_exp y"
  have ypos: "0 < y" using pos le by simp
  have bm: "binade x \<le> binade y" using pos le by (rule binade_mono)
  then have qle: "qx \<le> qy" by (simp add: qx_def qy_def quantum_exp_def)
  show ?thesis
  proof (cases "qx = qy")
    case True
    have "x / 2 powi qy \<le> y / 2 powi qy" using le by (simp add: divide_right_mono)
    then have "round_half_even (x / 2 powi qy) \<le> round_half_even (y / 2 powi qy)"
      by (rule round_half_even_mono)
    then have "real_of_int (round_half_even (x / 2 powi qy)) * 2 powi qy
        \<le> real_of_int (round_half_even (y / 2 powi qy)) * 2 powi qy"
      by (intro mult_right_mono) simp_all
    then show ?thesis using True by (simp add: round_to_quantum_def qx_def qy_def)
  next
    case False
    then have lt: "qx < qy" using qle by simp
    define e where "e = binade y"
    have qy_e: "qy = e - 52" and ex: "binade x < e"
      using lt bm by (auto simp: qx_def qy_def quantum_exp_def e_def)
    have qx_e: "qx \<le> e" using lt qy_e by simp
    have "x < 2 powi (binade x + 1)" using binade_bounds [of x] pos by simp
    also have "\<dots> \<le> 2 powi e" using ex by (intro power_int_increasing) simp_all
    finally have xe: "x \<le> 2 powi e" by simp
    have ye: "2 powi e \<le> y" using binade_bounds [of y] ypos by (simp add: e_def)
    have s1: "(2::real) powi e = 2 powi (e - qx) * 2 powi qx" by (simp flip: power_int_add)
    define p :: int where "p = 52"
    have "e = p + qy" unfolding qy_e p_def by simp
    then have s2: "(2::real) powi e = 2 powi p * 2 powi qy"
      by (simp add: power_int_add)
    have pw: "real_of_int (2 ^ 52) = 2 powi p" by (simp add: p_def)
    have "x / 2 powi qx \<le> 2 powi e / 2 powi qx" using xe by (simp add: divide_right_mono)
    also have "\<dots> = 2 powi (e - qx)" unfolding s1 by simp
    also have "\<dots> = of_int (2 ^ nat (e - qx))" using qx_e by (simp add: power_int_nonneg_exp)
    finally have "round_half_even (x / 2 powi qx) \<le> round_half_even (of_int (2 ^ nat (e - qx)))"
      by (rule round_half_even_mono)
    then have "round_half_even (x / 2 powi qx) \<le> 2 ^ nat (e - qx)"
      by (simp only: round_half_even_int)
    then have "real_of_int (round_half_even (x / 2 powi qx)) \<le> real_of_int (2 ^ nat (e - qx))"
      by (simp only: of_int_le_iff)
    then have "real_of_int (round_half_even (x / 2 powi qx)) * 2 powi qx
        \<le> real_of_int (2 ^ nat (e - qx)) * 2 powi qx"
      by (intro mult_right_mono) simp_all
    also have "\<dots> = 2 powi e" unfolding s1 using qx_e by (simp add: power_int_nonneg_exp)
    finally have lower: "round_to_quantum x \<le> 2 powi e"
      by (simp add: round_to_quantum_def qx_def)
    have "real_of_int (2 ^ 52) = 2 powi e / 2 powi qy" unfolding s2 pw by simp
    also have "\<dots> \<le> y / 2 powi qy" using ye by (simp add: divide_right_mono)
    finally have "round_half_even (of_int (2 ^ 52)) \<le> round_half_even (y / 2 powi qy)"
      by (rule round_half_even_mono)
    then have "2 ^ 52 \<le> round_half_even (y / 2 powi qy)"
      by (simp only: round_half_even_int)
    then have "real_of_int (2 ^ 52) \<le> real_of_int (round_half_even (y / 2 powi qy))"
      by (simp only: of_int_le_iff)
    then have "real_of_int (2 ^ 52) * 2 powi qy
        \<le> real_of_int (round_half_even (y / 2 powi qy)) * 2 powi qy"
      by (intro mult_right_mono) simp_all
    then have "2 powi e \<le> real_of_int (round_half_even (y / 2 powi qy)) * 2 powi qy"
      unfolding s2 pw .
    then have upper: "2 powi e \<le> round_to_quantum y"
      unfolding round_to_quantum_def qy_def .
    from lower upper show ?thesis by linarith
  qed
qed

lemma round64_mono:
  assumes "0 \<le> x" "x \<le> y"
  shows "round64 x \<le> round64 y"
proof -
  have ob: "0 < overflow_bound" by (simp add: overflow_bound_def)
  have ny: "0 \<le> round_to_quantum y" using assms by (intro round_to_quantum_nonneg) simp
  have nx: "0 \<le> round_to_quantum x" using assms by (intro round_to_quantum_nonneg)
  show ?thesis
  proof (cases "x = 0")
    case True
    then show ?thesis using ny ob by (auto simp: round64_def Let_def)
  next
    case False
    then have "0 < x" using assms by simp
    then have "round_to_quantum x \<le> round_to_quantum y" using assms(2)
      by (rule round_to_quantum_mono)
    then show ?thesis using nx ny ob False assms by (auto simp: round64_def Let_def)
  qed
qed

lemma overflow_bound_gt: "2 ^ 53 < overflow_bound"
  unfolding overflow_bound_def by (rule power_strict_increasing) simp_all

lemma round64_dyadic:
  assumes n: "\<bar>n\<bar> < 2 ^ 53" and j: "j \<le> 1074"
  shows "round64 (of_int n / 2 ^ j) = Fin (of_int n / 2 ^ j)"
proof (rule round64_exact [where m = n and k = "- int j"])
  show "real_of_int n / 2 ^ j = real_of_int n * 2 powi (- int j)"
    by (simp add: power_int_minus divide_inverse)
  show "\<bar>n\<bar> < 2 ^ 53" by (rule n)
  show "- 1074 \<le> - int j" using j by simp
  have "\<bar>real_of_int n / 2 ^ j\<bar> \<le> \<bar>real_of_int n\<bar>"
    by (simp add: field_simps mult_le_cancel_left1)
  also have "\<dots> = real_of_int \<bar>n\<bar>" by simp
  also have "\<dots> < real_of_int (2 ^ 53)" using n by (simp only: of_int_less_iff)
  also have "\<dots> < overflow_bound" using overflow_bound_gt by simp
  finally show "\<bar>real_of_int n / 2 ^ j\<bar> < overflow_bound" .
qed

lemma round64_of_int: "\<bar>n\<bar> < 2 ^ 53 \<Longrightarrow> round64 (of_int n) = Fin (of_int n)"
  using round64_dyadic [of n 0] by simp

lemma round64_numeral [simp]:
  "numeral n < (2::int) ^ 53 \<Longrightarrow> round64 (numeral n) = Fin (numeral n)"
  using round64_of_int [of "numeral n"] by simp

lemma round64_neg_numeral [simp]:
  "numeral n < (2::int) ^ 53 \<Longrightarrow> round64 (- numeral n) = Fin (- numeral n)"
  using round64_of_int [of "- numeral n"] by simp

lemma round64_0 [simp]: "round64 0 = Fin 0"
  by (simp add: round64_def)

lemma round64_1 [simp]: "round64 1 = Fin 1"
  using round64_of_int [of 1] by simp

lemma round64_neg_1 [simp]: "round64 (- 1) = Fin (- 1)"
  using round64_of_int [of "- 1"] by simp

lemma round64_halves [simp]:
  "numeral n < (2::int) ^ 53 \<Longrightarrow> round64 (numeral n / 2) = Fin (numeral n / 2)"
  "numeral n < (2::int) ^ 53 \<Longrightarrow> round64 (- (numeral n / 2)) = Fin (- (numeral n / 2))"
  "round64 (1 / 2) = Fin (1 / 2)"
  "round64 (- (1 / 2)) = Fin (- (1 / 2))"
  using round64_dyadic [of "numeral n" 1] round64_dyadic [of "- numeral n" 1]
    round64_dyadic [of 1 1] round64_dyadic [of "- 1" 1]
  by simp_all

lemma round64_quarters [simp]:
  "numeral n < (2::int) ^ 53 \<Longrightarrow> round64 (numeral n / 4) = Fin (numeral n / 4)"
  "numeral n < (2::int) ^ 53 \<Longrightarrow> round64 (- (numeral n / 4)) = Fin (- (numeral n / 4))"
  "round64 (1 / 4) = Fin (1 / 4)"
  "round64 (- (1 / 4)) = Fin (- (1 / 4))"
  using round64_dyadic [of "numeral n" 2] round64_dyadic [of "- numeral n" 2]
    round64_dyadic [of 1 2] round64_dyadic [of "- 1" 2]
  by simp_all



lemma round64_not_NaN [simp]: "round64 x \<noteq> NaN"
  by (simp add: round64_def Let_def)

text \<open>
  Two results that differ from the exact ones: \<open>2^53 + 1\<close> is a tie between two binary64
  numbers and rounds to the even one, \<open>2^53\<close>; \<open>2^1023 + 2^1023\<close> overflows to \<open>+Inf\<close>.
\<close>

lemma rounding_examples:
  "fadd (Fin (2 ^ 53)) (Fin 1) = Fin (2 ^ 53) \<and>
   fadd (Fin (2 ^ 1023)) (Fin (2 ^ 1023)) = PInf"
proof
  define x :: real where "x = 2 ^ 53 + 1"
  have b: "binade x = 53" by (intro binade_eq) (simp_all add: x_def)
  have q: "quantum_exp x = 1" by (simp add: quantum_exp_def b)
  have r: "round_half_even (x / 2) = 2 ^ 52" by (simp add: round_half_even_def x_def)
  have "round_to_quantum x = 2 ^ 53"
    unfolding round_to_quantum_def q using r by simp
  moreover have "(2::real) ^ 53 < overflow_bound" by (rule overflow_bound_gt)
  moreover have "x \<noteq> 0" by (simp add: x_def)
  ultimately have "round64 x = Fin (2 ^ 53)"
    by (simp add: round64_def Let_def)
  then show "fadd (Fin (2 ^ 53)) (Fin 1) = Fin (2 ^ 53)"
    unfolding fadd.simps x_def .
next
  have e: "(2::real) ^ 1023 + 2 ^ 1023 = overflow_bound"
  proof -
    have "(2::real) ^ 1023 + 2 ^ 1023 = 2 * 2 ^ 1023" by (rule mult_2 [symmetric])
    also have "\<dots> = 2 ^ Suc 1023" by (rule power_Suc [symmetric])
    also have "Suc 1023 = 1024" by simp
    finally show ?thesis unfolding overflow_bound_def .
  qed
  have "overflow_bound = real_of_int 1 * 2 powi 1024"
    unfolding overflow_bound_def by (simp only: power_int_numeral of_int_1 mult_1)
  then have "round_to_quantum overflow_bound = overflow_bound"
    by (rule round_to_quantum_exact) simp_all
  moreover have "0 < overflow_bound" unfolding overflow_bound_def by (rule zero_less_power) simp
  ultimately have "round64 overflow_bound = PInf" by (simp add: round64_def Let_def)
  then show "fadd (Fin (2 ^ 1023)) (Fin (2 ^ 1023)) = PInf"
    unfolding fadd.simps e .
qed

lemma float64_of_int_exact:
  assumes "\<bar>i\<bar> \<le> 2 ^ 53"
  shows "float64_of_int i = Fin (of_int i)"
proof (cases "\<bar>i\<bar> < 2 ^ 53")
  case True
  then show ?thesis by (simp add: float64_of_int_def round64_of_int)
next
  case False
  then have i: "\<bar>i\<bar> = 2 ^ 53" using assms by simp
  have "i = 2 ^ 53 \<or> i = - (2 ^ 53)" using i by linarith
  then obtain m where im: "i = m * 2" and mb: "\<bar>m\<bar> < 2 ^ 53"
  proof
    assume "i = 2 ^ 53"
    then have "i = 2 ^ 52 * 2" "\<bar>2 ^ 52 :: int\<bar> < 2 ^ 53" by simp_all
    then show ?thesis by (rule that)
  next
    assume "i = - (2 ^ 53)"
    then have "i = (- (2 ^ 52)) * 2" "\<bar>- (2 ^ 52) :: int\<bar> < 2 ^ 53" by simp_all
    then show ?thesis by (rule that)
  qed
  have "real_of_int i = real_of_int m * 2 powi 1" unfolding im by simp
  moreover have "\<bar>real_of_int i\<bar> < overflow_bound"
  proof -
    have "\<bar>real_of_int i\<bar> = real_of_int \<bar>i\<bar>" by simp
    also have "\<dots> = 2 ^ 53" unfolding i by simp
    finally show ?thesis using overflow_bound_gt by simp
  qed
  ultimately have "round64 (real_of_int i) = Fin (real_of_int i)"
    using mb by (intro round64_exact [where m = m and k = 1]) simp_all
  then show ?thesis by (simp add: float64_of_int_def)
qed

lemma float64_of_int_mono:
  "0 \<le> i \<Longrightarrow> i \<le> j \<Longrightarrow> float64_of_int i \<le> float64_of_int j"
  unfolding float64_of_int_def by (rule round64_mono) simp_all

lemma float64_of_int_not_NaN [simp]: "float64_of_int i \<noteq> NaN"
  by (simp add: float64_of_int_def)

lemma float64_of_int_nonzero:
  assumes "1 \<le> n" shows "float64_of_int n \<noteq> Fin 0"
proof
  assume z: "float64_of_int n = Fin 0"
  have "float64_of_int 1 \<le> float64_of_int n" using assms by (intro float64_of_int_mono) simp_all
  then show False using z float64_of_int_exact [of 1] by simp
qed

text \<open>
  Their effect on the statistics: the average of two large values overflows although
  their real average is a binary64 number, and the mean of \<open>2^53, 1, -2^53\<close> in this order
  is 0, not a third.
\<close>

lemma rounding_median_example:
  "spec_median [Fin (2 ^ 1023), Fin (2 ^ 1023)] = PInf"
proof -
  have "spec_median [a, b] = fdiv (fadd a b) (Fin 2)" for a b
    by (simp add: spec_median_def)
  then have "spec_median [Fin (2 ^ 1023), Fin (2 ^ 1023)] = fdiv PInf (Fin 2)"
    using rounding_examples by (simp only:)
  then show ?thesis by simp
qed

lemma rounding_mean_examples:
  "spec_mean [Fin (2 ^ 1023), Fin (2 ^ 1023)] = PInf \<and>
   spec_mean [Fin (2 ^ 53), Fin 1, Fin (- (2 ^ 53))] = Fin 0"
proof
  have big: "round64 (2 ^ 1023) = Fin (2 ^ 1023)"
  proof (rule round64_exact [where m = 1 and k = 1023])
    show "(2::real) ^ 1023 = real_of_int 1 * 2 powi 1023"
      by (simp only: power_int_numeral of_int_1 mult_1)
    show "\<bar>1::int\<bar> < 2 ^ 53" by simp
    show "- 1074 \<le> (1023::int)" by simp
    have "(2::real) ^ 1023 < 2 ^ 1024" by (rule power_strict_increasing) simp_all
    moreover have "\<bar>(2::real) ^ 1023\<bar> = 2 ^ 1023"
      by (rule abs_of_pos, rule zero_less_power) simp
    ultimately show "\<bar>(2::real) ^ 1023\<bar> < overflow_bound"
      by (simp only: overflow_bound_def)
  qed
  have z: "fadd (Fin 0) (Fin (2 ^ 1023)) = Fin (2 ^ 1023)"
    unfolding fadd.simps add_0 big ..
  have two: "float64_of_int (int (length [Fin (2 ^ 1023), Fin (2 ^ 1023)])) = Fin 2"
    by (simp add: float64_of_int_def)
  have "spec_mean [Fin (2 ^ 1023), Fin (2 ^ 1023)] = fdiv PInf (Fin 2)"
    unfolding spec_mean_def spec_sum_def foldl.simps z two
    using rounding_examples by (simp only:)
  then show "spec_mean [Fin (2 ^ 1023), Fin (2 ^ 1023)] = PInf" by simp
next
  have p: "round64 (2 ^ 53) = Fin (2 ^ 53)"
    using float64_of_int_exact [of "2 ^ 53"] by (simp add: float64_of_int_def)
  have z: "fadd (Fin 0) (Fin (2 ^ 53)) = Fin (2 ^ 53)"
    unfolding fadd.simps add_0 p ..
  have c: "fadd (Fin (2 ^ 53)) (Fin (- (2 ^ 53))) = Fin 0" by simp
  have three: "float64_of_int (int (length [Fin (2 ^ 53), Fin 1, Fin (- (2 ^ 53))])) = Fin 3"
    by (simp add: float64_of_int_def)
  have a: "fadd (Fin (2 ^ 53)) (Fin 1) = Fin (2 ^ 53)"
    using rounding_examples by (rule conjunct1)
  have "spec_mean [Fin (2 ^ 53), Fin 1, Fin (- (2 ^ 53))] = fdiv (Fin 0) (Fin 3)"
    unfolding spec_mean_def spec_sum_def foldl.simps z a c three ..
  then show "spec_mean [Fin (2 ^ 53), Fin 1, Fin (- (2 ^ 53))] = Fin 0" by simp
qed



section \<open>Properties of the loops\<close>

lemma flt_iff_less: "x \<noteq> NaN \<Longrightarrow> y \<noteq> NaN \<Longrightarrow> flt x y = (x < y)"
  by (cases x; cases y) (simp_all add: less_float64_def cmp_Less_def)

lemma NInf_least: "v \<noteq> NaN \<Longrightarrow> NInf \<le> v"
  by (cases v) (simp_all add: less_eq_float64_def cmp_Less_def)

lemma running_max_above:
  "sorted vs \<Longrightarrow> NaN \<notin> set vs \<Longrightarrow> m \<noteq> NaN \<Longrightarrow> \<forall>v\<in>set vs. m \<le> v \<Longrightarrow>
   running_max m vs = (if vs = [] then m else last vs)"
proof (induction vs arbitrary: m)
  case Nil
  show ?case by (simp add: running_max_def)
next
  case (Cons v vs)
  have v: "v \<noteq> NaN" "m \<le> v" using Cons.prems by auto
  have "fgt v m = (m < v)" using v Cons.prems(3) by (simp add: fgt_def flt_iff_less)
  then have acc: "(if fgt v m then v else m) = v" using v(2) by auto
  have "running_max m (v # vs) = running_max v vs"
    by (simp add: running_max_def acc)
  also have "\<dots> = (if vs = [] then v else last vs)"
    using Cons.prems v by (intro Cons.IH) auto
  finally show ?case by simp
qed

lemma running_max_sorted:
  assumes "sorted vs" "NaN \<notin> set vs" "vs \<noteq> []"
  shows "running_max NInf vs = last vs"
proof -
  have "\<forall>v\<in>set vs. NInf \<le> v" using assms(2) by (auto intro: NInf_least)
  then show ?thesis using running_max_above [OF assms(1,2), of NInf] assms(3) by simp
qed

lemma running_min_below:
  "NaN \<notin> set vs \<Longrightarrow> m \<noteq> NaN \<Longrightarrow> \<forall>v\<in>set vs. m \<le> v \<Longrightarrow> running_min m vs = m"
proof (induction vs)
  case Nil
  show ?case by (simp add: running_min_def)
next
  case (Cons v vs)
  have vn: "v \<noteq> NaN" using Cons.prems(1) by auto
  have "flt v m = (v < m)" by (rule flt_iff_less [OF vn Cons.prems(2)])
  moreover have "m \<le> v" using Cons.prems by simp
  ultimately have acc: "(if flt v m then v else m) = m" by auto
  have "running_min m (v # vs) = running_min m vs"
    by (simp add: running_min_def acc)
  then show ?case using Cons by simp
qed

lemma running_min_sorted:
  assumes "sorted vs" "NaN \<notin> set vs" "vs \<noteq> []"
  shows "running_min PInf vs = hd vs"
proof -
  obtain v ws where vs: "vs = v # ws" using assms(3) by (cases vs) auto
  have nn: "v \<noteq> NaN" using assms(2) vs by auto
  have acc: "(if flt v PInf then v else PInf) = v" using nn by (cases v) simp_all
  have "running_min PInf vs = running_min v ws"
    by (simp add: vs running_min_def acc)
  also have "\<dots> = v" using assms vs nn by (intro running_min_below) auto
  finally show ?thesis by (simp add: vs)
qed

lemma Max_sorted: "sorted xs \<Longrightarrow> xs \<noteq> [] \<Longrightarrow> Max (set xs) = last xs"
proof (induction xs)
  case Nil
  then show ?case by simp
next
  case (Cons x xs)
  show ?case
  proof (cases "xs = []")
    case True
    then show ?thesis by simp
  next
    case False
    then have "Max (set xs) = last xs" using Cons by simp
    moreover have "x \<le> last xs" using Cons.prems False by simp
    ultimately show ?thesis using False by (simp add: max_absorb2)
  qed
qed

lemma Min_sorted: "sorted xs \<Longrightarrow> xs \<noteq> [] \<Longrightarrow> Min (set xs) = hd xs"
  by (cases xs) (auto intro!: Min_eqI)

lemma generated_values_sorted: "sorted (map float64_of_int [0..n])"
proof -
  have "sorted_wrt (\<lambda>i j. float64_of_int i \<le> float64_of_int j) [0..n]"
  proof (rule sorted_wrt_mono_rel)
    show "sorted_wrt (\<le>) [0..n]" by simp
  next
    fix i j :: int
    assume "i \<in> set [0..n]" "j \<in> set [0..n]" "i \<le> j"
    then show "float64_of_int i \<le> float64_of_int j"
      by (intro float64_of_int_mono) auto
  qed
  then show ?thesis by (simp add: sorted_map)
qed

lemma generated_values_extrema:
  assumes N: "1 \<le> N"
  shows "running_min PInf (map float64_of_int [0..N - 1]) = float64_of_int 0 \<and>
         running_max NInf (map float64_of_int [0..N - 1]) = float64_of_int (N - 1) \<and>
         Min (set (map float64_of_int [0..N - 1])) = float64_of_int 0 \<and>
         Max (set (map float64_of_int [0..N - 1])) = float64_of_int (N - 1)"
proof -
  let ?vs = "map float64_of_int [0..N - 1]"
  have srt: "sorted ?vs" by (rule generated_values_sorted)
  have nn: "NaN \<notin> set ?vs"
  proof
    assume "NaN \<in> set ?vs"
    then obtain i where "NaN = float64_of_int i" by auto
    then show False using float64_of_int_not_NaN [of i] by simp
  qed
  have vne: "?vs \<noteq> []" using N by simp
  have "[0..N - 1] = 0 # [0 + 1..N - 1]" using N by (intro upto_rec1) simp
  then have first: "hd ?vs = float64_of_int 0" by simp
  have "[0..N - 1] = [0..N - 1 - 1] @ [N - 1]" using N by (intro upto_rec2) simp
  then have final: "last ?vs = float64_of_int (N - 1)" by simp
  show ?thesis
    unfolding running_min_sorted [OF srt nn vne] running_max_sorted [OF srt nn vne]
      Min_sorted [OF srt vne] Max_sorted [OF srt vne] first final
    by simp
qed

lemma first_loop_run:
  "length vals = k + length rs \<Longrightarrow>
   first_loop rs (int k) (mx, mn, sm, vals) =
     Inr (foldl (\<lambda>m v. if fgt v m then v else m) mx (map Value rs),
          foldl (\<lambda>m v. if flt v m then v else m) mn (map Value rs),
          foldl fadd sm (map Value rs),
          take k vals @ map Value rs)"
proof (induction rs arbitrary: k mx mn sm vals)
  case Nil
  then show ?case by simp
next
  case (Cons r rs)
  have len: "length (vals[k := Value r]) = Suc k + length rs"
    using Cons.prems by simp
  have tk: "take (Suc k) (vals[k := Value r]) = take k vals @ [Value r]"
    using Cons.prems by (simp add: take_Suc_conv_app_nth)
  show ?case
    using Cons.IH [OF len] Cons.prems tk
    by (simp add: slice_set_def Let_def add.commute)
qed

lemma second_loop_foldl:
  "second_loop rs mean sd =
     foldl fadd sd (map (\<lambda>v. fmul (fsub v mean) (fsub v mean)) (map Value rs))"
  by (induction rs arbitrary: sd) simp_all

lemma median_of_nonempty:
  assumes "vals \<noteq> []"
  shows "median_of vals = Inr (spec_median vals)"
proof -
  let ?n = "length vals"
  have pos: "0 < ?n" using assms by simp
  have m: "(int ?n mod 2 = 0) = even ?n"
    by presburger
  have hi: "0 \<le> int ?n div 2 \<and> int ?n div 2 < int ?n" using pos by presburger
  have half: "int ?n div 2 = int (?n div 2)" by simp
  have nhi: "nat (int ?n div 2) = ?n div 2" by (simp only: half nat_int)
  show ?thesis
  proof (cases "even ?n")
    case True
    then have lo: "0 \<le> int ?n div 2 - 1 \<and> int ?n div 2 - 1 < int ?n" using pos by presburger
    have nlo: "nat (int ?n div 2 - 1) = ?n div 2 - 1" by (simp add: half)
    show ?thesis
      using True lo hi by (simp add: median_of_def spec_median_def slice_get_def m nhi nlo Let_def)
  next
    case False
    show ?thesis
      using False hi by (simp add: median_of_def spec_median_def slice_get_def m nhi Let_def)
  qed
qed

lemma StatisticsFromRecords_run:
  assumes "records \<noteq> []"
  shows "StatisticsFromRecords records =
    Inr (spec_mean (map Value records),
         spec_median (sort (map Value records)),
         spec_population_stddev (map Value records),
         running_min PInf (map Value records),
         running_max NInf (map Value records))"
proof -
  let ?vs = "map Value records"
  have fl: "first_loop records 0 (NInf, PInf, Fin 0, replicate (length records) (Fin 0)) =
      Inr (running_max NInf ?vs, running_min PInf ?vs, spec_sum ?vs, ?vs)"
    using first_loop_run [of "replicate (length records) (Fin 0)" 0 records NInf PInf "Fin 0"]
    by (simp add: running_max_def running_min_def spec_sum_def)
  have ne: "sort ?vs \<noteq> []" using assms by (metis length_sort length_map length_0_conv)
  show ?thesis
    by (simp add: StatisticsFromRecords_def fl slices_Sort_def median_of_nonempty [OF ne]
        second_loop_foldl spec_sum_def spec_mean_def spec_population_stddev_def Let_def)
qed

section \<open>Auxiliary facts for the claims\<close>

lemma sorted_arrangement:
  "sorted s \<Longrightarrow> mset s = mset vs \<Longrightarrow> sort vs = s"
  by (rule properties_for_sort) simp_all

lemma median_guarded_checked: "median_guarded vals = checked (median_of vals)"
  by (simp add: median_guarded_def median_of_def checked_def checked_fdiv_def Let_def
      split: sum.splits)

lemma StatisticsFromRecords_empty:
  "StatisticsFromRecords [] = Inl (IndexOutOfRange (- 1) 0) \<and>
   StatisticsFromRecords_guarded [] = None"
  by (simp add: StatisticsFromRecords_def StatisticsFromRecords_guarded_def slices_Sort_def
      median_of_def slice_get_def checked_def checked_fdiv_def float64_of_int_def Let_def)

lemma gen_loop_run:
  "0 \<le> i \<Longrightarrow> i \<le> N \<Longrightarrow> length recs = nat N \<Longrightarrow>
   gen_loop i N recs =
     Inr (take (nat i) recs @ map (\<lambda>j. \<lparr>ID = j, Value = float64_of_int j\<rparr>) [i..N - 1])"
proof (induction i N recs rule: gen_loop.induct)
  case (1 i N recs)
  show ?case
  proof (cases "i < N")
    case False
    with "1.prems" have "i = N" by simp
    with "1.prems" show ?thesis by (simp add: gen_loop.simps [of N N recs])
  next
    case True
    let ?r = "\<lparr>ID = i, Value = float64_of_int i\<rparr>"
    have inb: "0 \<le> i \<and> i < int (length recs)" using True "1.prems" by simp
    have st: "slice_set recs i ?r = Inr (recs[nat i := ?r])"
      using inb by (simp add: slice_set_def)
    have ih: "gen_loop (i + 1) N (recs[nat i := ?r]) =
        Inr (take (nat (i + 1)) (recs[nat i := ?r]) @
             map (\<lambda>j. \<lparr>ID = j, Value = float64_of_int j\<rparr>) [i + 1..N - 1])"
      using "1.IH" [OF True st] True "1.prems" by simp
    have ni: "nat (i + 1) = Suc (nat i)" using "1.prems" by simp
    have lt: "nat i < length recs" using inb by linarith
    have tk: "take (Suc (nat i)) (recs[nat i := ?r]) = take (nat i) recs @ [?r]"
      using lt by (simp add: take_Suc_conv_app_nth)
    have up: "[i..N - 1] = i # [i + 1..N - 1]"
      using True by (simp add: upto_rec1)
    have "gen_loop i N recs = gen_loop (i + 1) N (recs[nat i := ?r])"
      using True st by (simp add: gen_loop.simps [of i N recs])
    then show ?thesis by (simp add: ih ni tk up)
  qed
qed

lemma generate_records_run:
  "0 \<le> N \<Longrightarrow>
   generate_records N = Inr (map (\<lambda>j. \<lparr>ID = j, Value = float64_of_int j\<rparr>) [0..N - 1])"
  using gen_loop_run [of 0 N "replicate (nat N) \<lparr>ID = 0, Value = Fin 0\<rparr>"]
  by (simp add: generate_records_def make_slice_def)

lemma first_loop_heap_run:
  "ra \<noteq> va \<Longrightarrow> cells h ra = Some (RecordArray recs) \<Longrightarrow>
   cells h va = Some (Float64Array vals) \<Longrightarrow> length vals = length recs \<Longrightarrow>
   i + k = length recs \<Longrightarrow>
   first_loop_heap k ra va (int i) (mx, mn, sm) h =
     (Inr (running_max mx (map Value (drop i recs)),
           running_min mn (map Value (drop i recs)),
           foldl fadd sm (map Value (drop i recs))),
      store_floats h va (take i vals @ map Value (drop i recs)))"
proof (induction k arbitrary: i mx mn sm h vals)
  case 0
  then have "store_floats h va vals = h"
    by (simp add: store_floats_def fun_upd_idem)
  with 0 show ?case by (simp add: running_max_def running_min_def)
next
  case (Suc k)
  let ?r = "recs ! i"
  let ?h = "store_floats h va (vals[i := Value ?r])"
  have lt: "i < length recs" using Suc.prems by simp
  have g: "slice_get (load_records h ra) (int i) = Inr ?r"
    using lt Suc.prems by (simp add: slice_get_def load_records_def)
  have st: "slice_set (load_floats h va) (int i) (Value ?r) = Inr (vals[i := Value ?r])"
    using lt Suc.prems by (simp add: slice_set_def load_floats_def)
  have dr: "drop i recs = ?r # drop (Suc i) recs"
    using lt by (simp add: Cons_nth_drop_Suc)
  have tk: "take (Suc i) (vals[i := Value ?r]) = take i vals @ [Value ?r]"
    using lt Suc.prems by (simp add: take_Suc_conv_app_nth)
  have ih: "first_loop_heap k ra va (int (Suc i)) (mx', mn', sm') ?h =
     (Inr (running_max mx' (map Value (drop (Suc i) recs)),
           running_min mn' (map Value (drop (Suc i) recs)),
           foldl fadd sm' (map Value (drop (Suc i) recs))),
      store_floats ?h va (take (Suc i) (vals[i := Value ?r]) @ map Value (drop (Suc i) recs)))"
    for mx' mn' sm'
    using Suc.prems by (intro Suc.IH) (simp_all add: store_floats_def)
  have ss: "store_floats ?h va xs = store_floats h va xs" for xs
    by (simp add: store_floats_def)
  have one: "int i + 1 = int (Suc i)" by simp
  show ?case
    unfolding first_loop_heap.simps g st sum.case Let_def one ih ss tk dr
    by (simp add: running_max_def running_min_def)
qed

lemma second_loop_heap_run:
  "cells h ra = Some (RecordArray recs) \<Longrightarrow> i + k = length recs \<Longrightarrow>
   second_loop_heap k ra (int i) mean sd h = Inr (second_loop (drop i recs) mean sd)"
proof (induction k arbitrary: i sd)
  case 0
  then show ?case by simp
next
  case (Suc k)
  have lt: "i < length recs" using Suc.prems by simp
  have g: "slice_get (load_records h ra) (int i) = Inr (recs ! i)"
    using lt Suc.prems by (simp add: slice_get_def load_records_def)
  have dr: "drop i recs = recs ! i # drop (Suc i) recs"
    using lt by (simp add: Cons_nth_drop_Suc)
  have one: "int i + 1 = int (Suc i)" by simp
  have ih: "second_loop_heap k ra (int (Suc i)) mean sd' h =
      Inr (second_loop (drop (Suc i) recs) mean sd')" for sd'
    using Suc.prems by (intro Suc.IH) simp_all
  show ?case
    unfolding second_loop_heap.simps g sum.case one ih dr by simp
qed

lemma StatisticsFromRecords_heap_run:
  assumes wf: "wf_heap h" and ra: "cells h ra = Some (RecordArray recs)"
  shows "StatisticsFromRecords_heap ra h =
    (StatisticsFromRecords recs,
     h\<lparr>cells := (cells h)(next_free h \<mapsto> Float64Array (slices_Sort (map Value recs))),
       next_free := Suc (next_free h)\<rparr>)"
proof -
  let ?va = "next_free h"
  let ?zeros = "replicate (length recs) (Fin 0)"
  let ?h1 = "h\<lparr>cells := (cells h)(?va \<mapsto> Float64Array ?zeros), next_free := Suc ?va\<rparr>"
  let ?vs = "map Value recs"
  have fresh: "cells h ?va = None" using wf by (simp add: wf_heap_def)
  have neq: "ra \<noteq> ?va" using fresh ra by auto
  have lr: "load_records h ra = recs" using ra by (simp add: load_records_def)
  have al: "alloc (Float64Array ?zeros) h = (?va, ?h1)" by (simp add: alloc_def)
  have ra1: "cells ?h1 ra = Some (RecordArray recs)" using ra neq by simp
  have va1: "cells ?h1 ?va = Some (Float64Array ?zeros)" by simp
  let ?h2 = "store_floats ?h1 ?va ?vs"
  have fl: "first_loop_heap (length recs) ra ?va 0 (NInf, PInf, Fin 0) ?h1 =
      (Inr (running_max NInf ?vs, running_min PInf ?vs, spec_sum ?vs), ?h2)"
    using first_loop_heap_run [OF neq ra1 va1, of 0 "length recs" NInf PInf "Fin 0"]
    by (simp add: spec_sum_def)
  have pure: "first_loop recs 0 (NInf, PInf, Fin 0, ?zeros) =
      Inr (running_max NInf ?vs, running_min PInf ?vs, spec_sum ?vs, ?vs)"
    using first_loop_run [of ?zeros 0 recs NInf PInf "Fin 0"]
    by (simp add: running_max_def running_min_def spec_sum_def)
  let ?h3 = "h\<lparr>cells := (cells h)(?va \<mapsto> Float64Array (slices_Sort ?vs)),
      next_free := Suc ?va\<rparr>"
  have h3: "store_floats ?h2 ?va (slices_Sort ?vs) = ?h3"
    by (simp add: store_floats_def)
  have lf2: "load_floats ?h2 ?va = ?vs" by (simp add: load_floats_def store_floats_def)
  have lf3: "load_floats ?h3 ?va = slices_Sort ?vs"
    by (simp add: load_floats_def)
  have ra3: "cells ?h3 ra = Some (RecordArray recs)"
    using ra neq by simp
  have sl: "second_loop_heap (length recs) ra 0 mean (Fin 0) ?h3 =
      Inr (second_loop recs mean (Fin 0))" for mean
    using second_loop_heap_run [OF ra3, of 0 "length recs" mean "Fin 0"] by simp
  have "StatisticsFromRecords_heap ra h =
      (case median_of (slices_Sort ?vs) of
         Inl p \<Rightarrow> (Inl p, ?h3)
       | Inr median \<Rightarrow>
           (Inr (fdiv (spec_sum ?vs) (float64_of_int (int (length recs))), median,
                 fsqrt (fdiv (second_loop recs
                                (fdiv (spec_sum ?vs) (float64_of_int (int (length recs))))
                                (Fin 0))
                             (float64_of_int (int (length recs)))),
                 running_min PInf ?vs, running_max NInf ?vs), ?h3))"
    unfolding StatisticsFromRecords_heap_def lr Let_def al prod.case fl sum.case lf2 h3 sl lf3
    by (rule refl)
  moreover have "StatisticsFromRecords recs =
      (case median_of (slices_Sort ?vs) of
         Inl p \<Rightarrow> Inl p
       | Inr median \<Rightarrow>
           Inr (fdiv (spec_sum ?vs) (float64_of_int (int (length recs))), median,
                fsqrt (fdiv (second_loop recs
                               (fdiv (spec_sum ?vs) (float64_of_int (int (length recs))))
                               (Fin 0))
                            (float64_of_int (int (length recs)))),
                running_min PInf ?vs, running_max NInf ?vs))"
    unfolding StatisticsFromRecords_def pure sum.case prod.case Let_def by (rule refl)
  ultimately show ?thesis by (simp split: sum.splits)
qed

lemma replay_append:
  "replay d db (cs @ cs') =
     (case replay d db cs of
        (es, db') \<Rightarrow> (case replay d db' cs' of (es', db'') \<Rightarrow> (es @ es', db'')))"
  by (induction cs arbitrary: db) (auto split: prod.splits)

lemma insert_loop_logged:
  "insert_loop (logging d) rs (db, issued) = (res, (db', issued')) \<Longrightarrow>
   \<exists>k \<le> length rs.
     issued' = issued @ map (\<lambda>r. (''INSERT INTO records (value) VALUES (?)'', [Value r])) (take k rs) \<and>
     (res = None \<longrightarrow> k = length rs) \<and>
     (res \<noteq> None \<longrightarrow> 0 < k) \<and>
     insert_loop d rs db = (res, db') \<and>
     fst (replay d db
            (map (\<lambda>r. (''INSERT INTO records (value) VALUES (?)'', [Value r])) (take k rs))) =
       (if res = None then replicate k None else replicate (k - 1) None @ [res]) \<and>
     snd (replay d db
            (map (\<lambda>r. (''INSERT INTO records (value) VALUES (?)'', [Value r])) (take k rs))) = db'"
proof (induction rs arbitrary: db issued)
  case Nil
  then show ?case by simp
next
  case (Cons r rs)
  let ?q = "''INSERT INTO records (value) VALUES (?)''"
  obtain e db1 where ex: "Exec d db ?q [Value r] = (e, db1)" by (cases "Exec d db ?q [Value r]")
  show ?case
  proof (cases e)
    case (Some err)
    with ex Cons.prems have "res = Some err" "db' = db1" "issued' = issued @ [(?q, [Value r])]"
      by (simp_all add: logging_def)
    with ex Some show ?thesis
      by (intro exI [of _ 1]) simp
  next
    case None
    with ex Cons.prems have
      "insert_loop (logging d) rs (db1, issued @ [(?q, [Value r])]) = (res, (db', issued'))"
      by (simp add: logging_def)
    from Cons.IH [OF this] obtain k where k: "k \<le> length rs"
      "issued' = (issued @ [(?q, [Value r])]) @ map (\<lambda>r. (?q, [Value r])) (take k rs)"
      "res = None \<longrightarrow> k = length rs" "res \<noteq> None \<longrightarrow> 0 < k"
      "insert_loop d rs db1 = (res, db')"
      "fst (replay d db1 (map (\<lambda>r. (?q, [Value r])) (take k rs))) =
         (if res = None then replicate k None else replicate (k - 1) None @ [res])"
      "snd (replay d db1 (map (\<lambda>r. (?q, [Value r])) (take k rs))) = db'"
      by blast
    show ?thesis
    proof (intro exI [of _ "Suc k"] conjI)
      show "Suc k \<le> length (r # rs)" using k(1) by simp
      show "issued' = issued @ map (\<lambda>r. (?q, [Value r])) (take (Suc k) (r # rs))"
        using k(2) by simp
      show "res = None \<longrightarrow> Suc k = length (r # rs)" using k(3) by simp
      show "res \<noteq> None \<longrightarrow> 0 < Suc k" by simp
      show "insert_loop d (r # rs) db = (res, db')" using ex None k(5) by simp
      show "fst (replay d db (map (\<lambda>r. (?q, [Value r])) (take (Suc k) (r # rs)))) =
          (if res = None then replicate (Suc k) None else replicate (Suc k - 1) None @ [res])"
        using ex None k(4) k(6)
        by (cases k) (auto split: prod.splits)
      show "snd (replay d db (map (\<lambda>r. (?q, [Value r])) (take (Suc k) (r # rs)))) = db'"
        using ex None k(7) by (auto split: prod.splits)
    qed
  qed
qed

lemma insert_loop_records_engine:
  "insert_loop records_engine rs tbl = (None, tbl @ map Value rs)"
  by (induction rs arbitrary: tbl) (simp_all add: records_engine_def)

lemma StandardInsert_records_engine:
  "StandardInsert records_engine rs tbl = (None, tbl @ map Value rs)"
proof -
  have b: "Exec records_engine tbl ''BEGIN TRANSACTION'' [] = (None, tbl)"
    by (simp add: records_engine_def)
  have c: "Exec records_engine (tbl @ map Value rs) ''COMMIT'' [] = (None, tbl @ map Value rs)"
    by (simp add: records_engine_def)
  show ?thesis
    by (simp add: StandardInsert_def b c insert_loop_records_engine)
qed

lemma CreateRecordsTable_records_engine:
  "CreateRecordsTable records_engine tbl = (None, tbl)"
  by (simp add: CreateRecordsTable_def records_engine_def CREATE_RECORDS_def)

lemma StatisticsFromDB_columns:
  "Query d db AGGREGATE_QUERY = Inr ([Some a, Some m, Some s, Some lo, Some hi] # rest) \<Longrightarrow>
   StatisticsFromDB d db = Inr (a, m, s, hi, lo)"
  by (simp add: StatisticsFromDB_def Scan_def zero_locals_def)

lemma StatisticsFromDB_records_engine:
  "tbl \<noteq> [] \<Longrightarrow>
   StatisticsFromDB records_engine tbl =
     Inr (spec_mean tbl, spec_median (sort tbl), spec_population_stddev tbl,
          Max (set tbl), Min (set tbl))"
  by (rule StatisticsFromDB_columns) (simp add: records_engine_def aggregate_row_def)

lemma stats_main_records_engine:
  assumes N: "1 \<le> N"
  shows "\<exists>mean median stddev.
    stats_main records_engine (Inr []) N =
      MainDone (mean, median, stddev, float64_of_int 0, float64_of_int (N - 1))
               (mean, median, stddev, float64_of_int (N - 1), float64_of_int 0)"
proof -
  let ?recs = "map (\<lambda>i. \<lparr>ID = i, Value = float64_of_int i\<rparr>) [0..N - 1]"
  let ?vs = "map float64_of_int [0..N - 1]"
  have g: "generate_records N = Inr ?recs" using N by (simp add: generate_records_run)
  have ne: "?recs \<noteq> []" using N by simp
  have vne: "?vs \<noteq> []" using N by simp
  have vs: "map Value ?recs = ?vs" by simp
  note ex = generated_values_extrema [OF N]
  have mem: "StatisticsFromRecords ?recs =
      Inr (spec_mean ?vs, spec_median (sort ?vs), spec_population_stddev ?vs,
           float64_of_int 0, float64_of_int (N - 1))"
    unfolding StatisticsFromRecords_run [OF ne] vs using ex by simp
  have dbs: "StatisticsFromDB records_engine ?vs =
      Inr (spec_mean ?vs, spec_median (sort ?vs), spec_population_stddev ?vs,
           float64_of_int (N - 1), float64_of_int 0)"
    unfolding StatisticsFromDB_records_engine [OF vne] using ex by simp
  have ins: "StandardInsert records_engine ?recs [] = (None, ?vs)"
    unfolding StandardInsert_records_engine vs by simp
  have "stats_main records_engine (Inr []) N =
      MainDone (spec_mean ?vs, spec_median (sort ?vs), spec_population_stddev ?vs,
                float64_of_int 0, float64_of_int (N - 1))
               (spec_mean ?vs, spec_median (sort ?vs), spec_population_stddev ?vs,
                float64_of_int (N - 1), float64_of_int 0)"
    unfolding stats_main_def CreateDB_def sum.case CreateRecordsTable_records_engine prod.case
      option.case g ins mem dbs
    by (rule refl)
  then show ?thesis by blast
qed

lemma basic_run_with_placeholder:
  "basic_run ''INSERT INTO t VALUES (?)'' t_engine (Inr []) =
     (map IntLine [0, 1, 2, 3, 4, 5, 6, 7, 8, 9], Returned)"
  by (simp add: basic_run_def t_engine_def upto_rec1 print_row_def Scan_int_def)






lemma stats_failures_fatal:
  "stats_main d (Inl e) N = MainFatal (Fatal ''Error creating DuckDB database'' (Some e)) \<and>
   (Exec d db CREATE_RECORDS [] = (Some e, db') \<longrightarrow>
      stats_main d (Inr db) N = MainFatal (Fatal ''Error creating records table'' (Some e))) \<and>
   (Exec d db CREATE_RECORDS [] = (None, db') \<and> generate_records N = Inr records \<and>
    StandardInsert d records db' = (Some e, db'') \<longrightarrow>
      stats_main d (Inr db) N = MainFatal (Fatal ''Error inserting records'' (Some e))) \<and>
   (Query d db AGGREGATE_QUERY = Inl e \<longrightarrow> StatisticsFromDB d db = Inl (Fatal [] (Some e))) \<and>
   (Query d db AGGREGATE_QUERY = Inr [] \<longrightarrow>
      StatisticsFromDB d db = Inl (Fatal ''No rows returned'' None)) \<and>
   (Query d db AGGREGATE_QUERY = Inr (row # rest) \<and>
    Scan row [Ptr_mean, Ptr_median, Ptr_stddev, Ptr_max, Ptr_min] zero_locals = Inl e \<longrightarrow>
      StatisticsFromDB d db = Inl (Fatal [] (Some e))) \<and>
   (Exec d db CREATE_RECORDS [] = (None, db') \<and> generate_records N = Inr records \<and>
    StandardInsert d records db' = (None, db'') \<and>
    StatisticsFromRecords records = Inr in_memory \<and> StatisticsFromDB d db'' = Inl f \<longrightarrow>
      stats_main d (Inr db) N = MainFatal f)"
  by (simp add: stats_main_def CreateDB_def CreateRecordsTable_def StatisticsFromDB_def)

lemma basic_exec_failure_exits:
  "(Exec bd tdb ''CREATE TABLE t (i INTEGER)'' [] = (Some e, tdb') \<longrightarrow>
      basic_main bd (Inr tdb) = ([ErrLine e], Exited 1)) \<and>
   (Exec bd tdb ''CREATE TABLE t (i INTEGER)'' [] = (None, tdb') \<and>
    Exec bd tdb' ''INSERT INTO t VALUES (%s)'' [0] = (Some e, tdb'') \<longrightarrow>
      basic_main bd (Inr tdb) = ([ErrLine e], Exited 1))"
  by (simp add: basic_main_def basic_run_def upto_rec1)

section \<open>The claims about the in-memory statistics\<close>

text \<open>
  Claim C4. For every non-empty list of records, the median returned by
  \<^verbatim>\<open>StatisticsFromRecords\<close> is the median of the ascending arrangement \<open>s\<close> of the values:
  the single middle value of \<open>s\<close> for an odd count, and for an even count the average of
  the two middle values, which the function computes in \<^verbatim>\<open>float64\<close> as their rounded sum
  divided by 2 (\<open>spec_median s\<close>). In particular it is 3 for the values 1, 2, 3, 4, 5 and
  2.5 for the values 1, 2, 3, 4, in whatever order the records hold them.
\<close>

theorem StatisticsFromRecords_median:
  "(records \<noteq> [] \<and> sorted s \<and> mset s = mset (map Value records) \<longrightarrow>
      (\<exists>mean stddev mn mx.
         StatisticsFromRecords records = Inr (mean, spec_median s, stddev, mn, mx))) \<and>
   (mset (map Value five) = {#Fin 1, Fin 2, Fin 3, Fin 4, Fin 5#} \<longrightarrow>
      (\<exists>mean stddev mn mx.
         StatisticsFromRecords five = Inr (mean, Fin 3, stddev, mn, mx))) \<and>
   (mset (map Value four) = {#Fin 1, Fin 2, Fin 3, Fin 4#} \<longrightarrow>
      (\<exists>mean stddev mn mx.
         StatisticsFromRecords four = Inr (mean, Fin (5 / 2), stddev, mn, mx)))"
proof (intro conjI impI)
  assume a: "records \<noteq> [] \<and> sorted s \<and> mset s = mset (map Value records)"
  then have "sort (map Value records) = s" by (simp add: sorted_arrangement)
  with a show "\<exists>mean stddev mn mx.
      StatisticsFromRecords records = Inr (mean, spec_median s, stddev, mn, mx)"
    by (simp add: StatisticsFromRecords_run)
next
  assume a: "mset (map Value five) = {#Fin 1, Fin 2, Fin 3, Fin 4, Fin 5#}"
  have "mset [Fin 1, Fin 2, Fin 3, Fin 4, Fin 5] = mset (map Value five)"
    using a by simp
  then have s: "sort (map Value five) = [Fin 1, Fin 2, Fin 3, Fin 4, Fin 5]"
    by (intro sorted_arrangement) simp_all
  have ne: "five \<noteq> []" using a by auto
  show "\<exists>mean stddev mn mx. StatisticsFromRecords five = Inr (mean, Fin 3, stddev, mn, mx)"
    by (simp add: StatisticsFromRecords_run [OF ne] s spec_median_def)
next
  assume a: "mset (map Value four) = {#Fin 1, Fin 2, Fin 3, Fin 4#}"
  have "mset [Fin 1, Fin 2, Fin 3, Fin 4] = mset (map Value four)"
    using a by simp
  then have s: "sort (map Value four) = [Fin 1, Fin 2, Fin 3, Fin 4]"
    by (intro sorted_arrangement) simp_all
  have ne: "four \<noteq> []" using a by auto
  show "\<exists>mean stddev mn mx.
      StatisticsFromRecords four = Inr (mean, Fin (5 / 2), stddev, mn, mx)"
    by (simp add: StatisticsFromRecords_run [OF ne] s spec_median_def)
qed

theorem StatisticsFromRecords_median_witness:
  "(\<exists>mean stddev mn mx.
      StatisticsFromRecords
        [\<lparr>ID = 0, Value = Fin 7\<rparr>, \<lparr>ID = 1, Value = Fin 1\<rparr>, \<lparr>ID = 2, Value = Fin 4\<rparr>] =
      Inr (mean, Fin 4, stddev, mn, mx)) \<and>
   (\<exists>mean stddev mn mx.
      StatisticsFromRecords
        [\<lparr>ID = 0, Value = Fin 4\<rparr>, \<lparr>ID = 1, Value = Fin 2\<rparr>, \<lparr>ID = 2, Value = Fin 5\<rparr>,
         \<lparr>ID = 3, Value = Fin 1\<rparr>, \<lparr>ID = 4, Value = Fin 3\<rparr>] =
      Inr (mean, Fin 3, stddev, mn, mx)) \<and>
   (\<exists>mean stddev mn mx.
      StatisticsFromRecords
        [\<lparr>ID = 0, Value = Fin 1\<rparr>, \<lparr>ID = 1, Value = Fin 2\<rparr>, \<lparr>ID = 2, Value = Fin 3\<rparr>,
         \<lparr>ID = 3, Value = Fin 4\<rparr>] =
      Inr (mean, Fin (5 / 2), stddev, mn, mx))"
proof (intro conjI)
  show "\<exists>mean stddev mn mx.
      StatisticsFromRecords
        [\<lparr>ID = 0, Value = Fin 7\<rparr>, \<lparr>ID = 1, Value = Fin 1\<rparr>, \<lparr>ID = 2, Value = Fin 4\<rparr>] =
      Inr (mean, Fin 4, stddev, mn, mx)"
    using StatisticsFromRecords_median
      [of "[\<lparr>ID = 0, Value = Fin 7\<rparr>, \<lparr>ID = 1, Value = Fin 1\<rparr>, \<lparr>ID = 2, Value = Fin 4\<rparr>]"
          "[Fin 1, Fin 4, Fin 7]", THEN conjunct1]
    by (simp add: spec_median_def)
  show "\<exists>mean stddev mn mx.
      StatisticsFromRecords
        [\<lparr>ID = 0, Value = Fin 4\<rparr>, \<lparr>ID = 1, Value = Fin 2\<rparr>, \<lparr>ID = 2, Value = Fin 5\<rparr>,
         \<lparr>ID = 3, Value = Fin 1\<rparr>, \<lparr>ID = 4, Value = Fin 3\<rparr>] =
      Inr (mean, Fin 3, stddev, mn, mx)"
    using StatisticsFromRecords_median
      [where five = "[\<lparr>ID = 0, Value = Fin 4\<rparr>, \<lparr>ID = 1, Value = Fin 2\<rparr>,
          \<lparr>ID = 2, Value = Fin 5\<rparr>, \<lparr>ID = 3, Value = Fin 1\<rparr>, \<lparr>ID = 4, Value = Fin 3\<rparr>]",
        THEN conjunct2, THEN conjunct1]
    by simp
  show "\<exists>mean stddev mn mx.
      StatisticsFromRecords
        [\<lparr>ID = 0, Value = Fin 1\<rparr>, \<lparr>ID = 1, Value = Fin 2\<rparr>, \<lparr>ID = 2, Value = Fin 3\<rparr>,
         \<lparr>ID = 3, Value = Fin 4\<rparr>] =
      Inr (mean, Fin (5 / 2), stddev, mn, mx)"
    using StatisticsFromRecords_median
      [where four = "[\<lparr>ID = 0, Value = Fin 1\<rparr>, \<lparr>ID = 1, Value = Fin 2\<rparr>,
          \<lparr>ID = 2, Value = Fin 3\<rparr>, \<lparr>ID = 3, Value = Fin 4\<rparr>]",
        THEN conjunct2, THEN conjunct2]
    by simp
qed





text \<open>
  Claim C8. For every non-empty list of records \<^verbatim>\<open>StatisticsFromRecords\<close> evaluates
  safely: the guarded embedding, which fails on any out-of-bounds slice index and on any
  zero divisor, returns a result, and it is the result of the function itself.
\<close>

theorem StatisticsFromRecords_safe:
  "records \<noteq> [] \<Longrightarrow>
   \<exists>r. StatisticsFromRecords_guarded records = Some r \<and> StatisticsFromRecords records = Inr r"
proof -
  assume ne: "records \<noteq> []"
  let ?vs = "map Value records"
  have fl: "first_loop records 0 (NInf, PInf, Fin 0, replicate (length records) (Fin 0)) =
      Inr (running_max NInf ?vs, running_min PInf ?vs, spec_sum ?vs, ?vs)"
    using first_loop_run [of "replicate (length records) (Fin 0)" 0 records NInf PInf "Fin 0"]
    by (simp add: running_max_def running_min_def spec_sum_def)
  have "1 \<le> int (length records)" using ne by (cases records) simp_all
  then have dv: "float64_of_int (int (length records)) \<noteq> Fin 0"
    by (rule float64_of_int_nonzero)
  have sne: "sort ?vs \<noteq> []" using ne by (metis length_sort length_map length_0_conv)
  show ?thesis
    by (simp add: StatisticsFromRecords_guarded_def StatisticsFromRecords_def fl dv
        checked_def checked_fdiv_def slices_Sort_def median_guarded_checked
        median_of_nonempty [OF sne] Let_def)
qed

theorem StatisticsFromRecords_safe_witness:
  "StatisticsFromRecords_guarded [\<lparr>ID = 0, Value = Fin 1\<rparr>, \<lparr>ID = 1, Value = Fin 4\<rparr>] =
     Some (Fin (5 / 2), Fin (5 / 2), Fin (3 / 2), Fin 1, Fin 4) \<and>
   StatisticsFromRecords [\<lparr>ID = 0, Value = Fin 1\<rparr>, \<lparr>ID = 1, Value = Fin 4\<rparr>] =
     Inr (Fin (5 / 2), Fin (5 / 2), Fin (3 / 2), Fin 1, Fin 4)"
proof -
  have sq: "sqrt (9 / 4) = (3 / 2 :: real)"
    using real_sqrt_abs [of "3 / 2"] by (simp add: power2_eq_square)
  have "StatisticsFromRecords [\<lparr>ID = 0, Value = Fin 1\<rparr>, \<lparr>ID = 1, Value = Fin 4\<rparr>] =
     Inr (Fin (5 / 2), Fin (5 / 2), Fin (3 / 2), Fin 1, Fin 4)"
    by (simp add: StatisticsFromRecords_run spec_mean_def spec_sum_def float64_of_int_def
        spec_median_def spec_population_stddev_def fsub_def running_min_def running_max_def
        fgt_def sq)
  then show ?thesis
    using StatisticsFromRecords_safe [of "[\<lparr>ID = 0, Value = Fin 1\<rparr>, \<lparr>ID = 1, Value = Fin 4\<rparr>]"]
    by auto
qed

section \<open>The claim about the generated records\<close>

text \<open>
  Claim C7. For every \<open>N \<ge> 1\<close> the record generator produces the \<open>N\<close> records with
  identifier \<open>i = 0, ..., N - 1\<close> and value \<open>float64(i)\<close>, and \<^verbatim>\<open>StatisticsFromRecords\<close>
  applied to them returns the minimum 0 and the maximum \<open>N - 1\<close>, as the \<^verbatim>\<open>float64\<close>
  values \<open>float64(0)\<close> and \<open>float64(N - 1)\<close> (the conversion is monotone, and exact up to
  \<open>2^53\<close>: \<open>float64_of_int_mono\<close>, \<open>float64_of_int_exact\<close>).
\<close>

theorem generated_records_min_max:
  "1 \<le> N \<Longrightarrow>
   \<exists>recs mean median stddev.
     generate_records N = Inr recs \<and>
     recs = map (\<lambda>i. \<lparr>ID = i, Value = float64_of_int i\<rparr>) [0..N - 1] \<and>
     length recs = nat N \<and>
     StatisticsFromRecords recs =
       Inr (mean, median, stddev, float64_of_int 0, float64_of_int (N - 1))"
proof -
  assume N: "1 \<le> N"
  let ?recs = "map (\<lambda>i. \<lparr>ID = i, Value = float64_of_int i\<rparr>) [0..N - 1]"
  let ?vs = "map float64_of_int [0..N - 1]"
  have g: "generate_records N = Inr ?recs" using N by (simp add: generate_records_run)
  have ne: "?recs \<noteq> []" using N by simp
  have vs: "map Value ?recs = ?vs" by simp
  note ex = generated_values_extrema [OF N]
  have "StatisticsFromRecords ?recs =
      Inr (spec_mean ?vs, spec_median (sort ?vs), spec_population_stddev ?vs,
           float64_of_int 0, float64_of_int (N - 1))"
    unfolding StatisticsFromRecords_run [OF ne] vs using ex by simp
  then show ?thesis
    using g N by simp
qed

theorem generated_records_min_max_witness:
  "generate_records 3 =
     Inr [\<lparr>ID = 0, Value = Fin 0\<rparr>, \<lparr>ID = 1, Value = Fin 1\<rparr>, \<lparr>ID = 2, Value = Fin 2\<rparr>] \<and>
   (\<exists>mean median stddev.
      StatisticsFromRecords
        [\<lparr>ID = 0, Value = Fin 0\<rparr>, \<lparr>ID = 1, Value = Fin 1\<rparr>, \<lparr>ID = 2, Value = Fin 2\<rparr>] =
      Inr (mean, median, stddev, Fin 0, Fin 2))"
proof -
  have u: "[0..2] = [0, 1, 2::int]" by (simp add: upto_rec1)
  show ?thesis
    using generated_records_min_max [of 3] by (simp add: u float64_of_int_def)
qed

section \<open>The claim about the input slice\<close>

text \<open>
  Claim C10. \<^verbatim>\<open>StatisticsFromRecords\<close> leaves its input unchanged: after the call the
  backing array of the records slice holds the same records in the same order, and so
  does every other array that existed before the call, because the values are copied
  into a freshly allocated array and only that array is written and sorted. The result
  is the one the function computes from the list of records.
\<close>

theorem StatisticsFromRecords_input_unchanged:
  "wf_heap h \<Longrightarrow> cells h ra = Some (RecordArray recs) \<Longrightarrow>
   StatisticsFromRecords_heap ra h = (res, h') \<Longrightarrow>
   cells h' ra = Some (RecordArray recs) \<and>
   (\<forall>a. cells h a \<noteq> None \<longrightarrow> cells h' a = cells h a) \<and>
   res = StatisticsFromRecords recs"
proof -
  assume wf: "wf_heap h" and ra: "cells h ra = Some (RecordArray recs)"
    and run: "StatisticsFromRecords_heap ra h = (res, h')"
  have fresh: "cells h (next_free h) = None" using wf by (simp add: wf_heap_def)
  have h': "h' = h\<lparr>cells := (cells h)(next_free h \<mapsto>
        Float64Array (slices_Sort (map Value recs))), next_free := Suc (next_free h)\<rparr>"
    and res: "res = StatisticsFromRecords recs"
    using run unfolding StatisticsFromRecords_heap_run [OF wf ra] by simp_all
  have "cells h' a = cells h a" if "cells h a \<noteq> None" for a
    using that fresh by (auto simp: h')
  then show ?thesis using ra res by auto
qed

theorem StatisticsFromRecords_input_unchanged_witness:
  "cells (snd (StatisticsFromRecords_heap 0
       \<lparr>cells = [0 \<mapsto> RecordArray [\<lparr>ID = 0, Value = Fin 4\<rparr>, \<lparr>ID = 1, Value = Fin 1\<rparr>]],
        next_free = 1\<rparr>)) 0 =
     Some (RecordArray [\<lparr>ID = 0, Value = Fin 4\<rparr>, \<lparr>ID = 1, Value = Fin 1\<rparr>]) \<and>
   cells (snd (StatisticsFromRecords_heap 0
       \<lparr>cells = [0 \<mapsto> RecordArray [\<lparr>ID = 0, Value = Fin 4\<rparr>, \<lparr>ID = 1, Value = Fin 1\<rparr>]],
        next_free = 1\<rparr>)) 1 =
     Some (Float64Array [Fin 1, Fin 4]) \<and>
   fst (StatisticsFromRecords_heap 0
       \<lparr>cells = [0 \<mapsto> RecordArray [\<lparr>ID = 0, Value = Fin 4\<rparr>, \<lparr>ID = 1, Value = Fin 1\<rparr>]],
        next_free = 1\<rparr>) =
     StatisticsFromRecords [\<lparr>ID = 0, Value = Fin 4\<rparr>, \<lparr>ID = 1, Value = Fin 1\<rparr>]"
proof -
  let ?recs = "[\<lparr>ID = 0, Value = Fin 4\<rparr>, \<lparr>ID = 1, Value = Fin 1\<rparr>]"
  let ?h = "\<lparr>cells = [0 \<mapsto> RecordArray ?recs], next_free = 1\<rparr>"
  have wf: "wf_heap ?h" by (simp add: wf_heap_def)
  have ra: "cells ?h 0 = Some (RecordArray ?recs)" by simp
  have sorted: "cells (snd (StatisticsFromRecords_heap 0 ?h)) 1 =
      Some (Float64Array [Fin 1, Fin 4])"
    by (simp add: StatisticsFromRecords_heap_def alloc_def load_records_def load_floats_def
        store_floats_def slice_get_def slice_set_def slices_Sort_def fgt_def median_of_def
        float64_of_int_def fsub_def Let_def numeral_2_eq_2)
  show ?thesis
    using StatisticsFromRecords_input_unchanged [OF wf ra, of "fst (StatisticsFromRecords_heap 0 ?h)"
        "snd (StatisticsFromRecords_heap 0 ?h)"] sorted
    by simp
qed

section \<open>The claims about the database operations\<close>

text \<open>
  Claim C9. For every list of records and every connection, \<^verbatim>\<open>StandardInsert\<close> begins a
  transaction, issues one parameterized insert per record in list order, and commits;
  when a statement fails it returns that first error at once. In the model: the calls it
  issues are a non-empty prefix of the script (begin, the inserts in order, commit);
  every call but the last succeeded and the last returned the function's result; the
  whole script was issued when the result is no error; and observing the calls does not
  change the result. So after a failure no further insert and no commit is issued, and no
  statement is issued twice.
\<close>

theorem StandardInsert_protocol:
  "StandardInsert (logging d) records (db, []) = (res, (db', issued)) \<Longrightarrow>
   prefix issued (insert_script records) \<and> issued \<noteq> [] \<and>
   replay d db issued = (replicate (length issued - 1) None @ [res], db') \<and>
   (res = None \<longrightarrow> issued = insert_script records) \<and>
   StandardInsert d records db = (res, db')"
proof -
  assume run: "StandardInsert (logging d) records (db, []) = (res, (db', issued))"
  let ?ins = "\<lambda>r. (''INSERT INTO records (value) VALUES (?)'', [Value r])"
  let ?begin = "(''BEGIN TRANSACTION'', []) :: float64 call"
  let ?commit = "(''COMMIT'', []) :: float64 call"
  obtain e1 db1 where b: "Exec d db ''BEGIN TRANSACTION'' [] = (e1, db1)"
    by (cases "Exec d db ''BEGIN TRANSACTION'' []")
  show ?thesis
  proof (cases e1)
    case (Some err)
    with b run have "res = Some err" "db' = db1" "issued = [?begin]"
      by (simp_all add: StandardInsert_def logging_def)
    with b Some show ?thesis
      by (simp add: insert_script_def StandardInsert_def)
  next
    case None
    obtain r2 db2 issued2 where
      l: "insert_loop (logging d) records (db1, [?begin]) = (r2, (db2, issued2))"
      by (cases "insert_loop (logging d) records (db1, [?begin])") auto
    from insert_loop_logged [OF l] obtain k where k: "k \<le> length records"
      "issued2 = [?begin] @ map ?ins (take k records)"
      "r2 = None \<longrightarrow> k = length records" "r2 \<noteq> None \<longrightarrow> 0 < k"
      "insert_loop d records db1 = (r2, db2)"
      "fst (replay d db1 (map ?ins (take k records))) =
         (if r2 = None then replicate k None else replicate (k - 1) None @ [r2])"
      "snd (replay d db1 (map ?ins (take k records))) = db2"
      by blast
    have rp: "replay d db1 (map ?ins (take k records)) =
        ((if r2 = None then replicate k None else replicate (k - 1) None @ [r2]), db2)"
      using k(6) k(7) by (cases "replay d db1 (map ?ins (take k records))") simp
    show ?thesis
    proof (cases r2)
      case (Some err)
      with b None l run have fin: "res = Some err" "db' = db2" "issued = issued2"
        by (simp_all add: StandardInsert_def logging_def)
      have sp: "map ?ins records = map ?ins (take k records) @ map ?ins (drop k records)"
        by (simp flip: map_append)
      have "insert_script records = issued @ (map ?ins (drop k records) @ [?commit])"
        unfolding fin k(2) insert_script_def sp by simp
      then have pre: "prefix issued (insert_script records)"
        by (rule prefixI)
      obtain k' where k': "k = Suc k'" using k(4) Some by (cases k) auto
      have len: "length issued = Suc k" using k(1) unfolding fin k(2) by simp
      have rep: "replay d db issued = (replicate (length issued - 1) None @ [res], db')"
        unfolding len using b None rp Some unfolding fin k(2) k' by simp
      show ?thesis
        using pre rep fin b None k(5) Some
        by (simp add: StandardInsert_def k(2))
    next
      case r2n: None
      obtain e3 db3 where c: "Exec d db2 ''COMMIT'' [] = (e3, db3)"
        by (cases "Exec d db2 ''COMMIT'' []")
      have kl: "k = length records" using k(3) r2n by simp
      from b None l r2n c run have fin: "res = e3" "db' = db3" "issued = issued2 @ [?commit]"
        by (auto simp: StandardInsert_def logging_def split: option.splits)
      have iss: "issued = insert_script records"
        unfolding fin k(2) insert_script_def kl by simp
      have "replay d db (insert_script records) =
          (None # replicate (length records) None @ [e3], db3)"
        unfolding insert_script_def using b None rp r2n c kl
        by (simp add: replay_append)
      then have rep: "replay d db issued = (replicate (length issued - 1) None @ [res], db')"
        unfolding iss fin by (simp add: insert_script_def)
      have plain: "StandardInsert d records db = (res, db')"
        using b None k(5) r2n c fin
        by (auto simp: StandardInsert_def split: option.splits)
      show ?thesis using iss rep plain by (simp add: insert_script_def)
    qed
  qed
qed

theorem StandardInsert_protocol_witness:
  "StandardInsert
     (logging (scripted (\<lambda>n. if n = 2 then Some (EngineError ''full'') else None) (Inr [])))
     [\<lparr>ID = 0, Value = Fin 5\<rparr>, \<lparr>ID = 1, Value = Fin 6\<rparr>, \<lparr>ID = 2, Value = Fin 7\<rparr>] (0, []) =
     (Some (EngineError ''full''),
      (3, [(''BEGIN TRANSACTION'', []),
           (''INSERT INTO records (value) VALUES (?)'', [Fin 5]),
           (''INSERT INTO records (value) VALUES (?)'', [Fin 6])])) \<and>
   replay (scripted (\<lambda>n. if n = 2 then Some (EngineError ''full'') else None) (Inr [])) 0
     [(''BEGIN TRANSACTION'', []),
      (''INSERT INTO records (value) VALUES (?)'', [Fin 5]),
      (''INSERT INTO records (value) VALUES (?)'', [Fin 6])] =
     ([None, None, Some (EngineError ''full'')], 3) \<and>
   StandardInsert (logging (scripted (\<lambda>n. None) (Inr [])))
     [\<lparr>ID = 0, Value = Fin 5\<rparr>, \<lparr>ID = 1, Value = Fin 6\<rparr>] (0, []) =
     (None,
      (4, [(''BEGIN TRANSACTION'', []),
           (''INSERT INTO records (value) VALUES (?)'', [Fin 5]),
           (''INSERT INTO records (value) VALUES (?)'', [Fin 6]),
           (''COMMIT'', [])])) \<and>
   insert_script [\<lparr>ID = 0, Value = Fin 5\<rparr>, \<lparr>ID = 1, Value = Fin 6\<rparr>] =
     [(''BEGIN TRANSACTION'', []),
      (''INSERT INTO records (value) VALUES (?)'', [Fin 5]),
      (''INSERT INTO records (value) VALUES (?)'', [Fin 6]),
      (''COMMIT'', [])]"
proof -
  let ?D = "scripted (\<lambda>n. if n = 2 then Some (EngineError ''full'') else None) (Inr [])
    :: (nat, float64) driver"
  let ?S = "scripted (\<lambda>n. None) (Inr []) :: (nat, float64) driver"
  let ?three = "[\<lparr>ID = 0, Value = Fin 5\<rparr>, \<lparr>ID = 1, Value = Fin 6\<rparr>, \<lparr>ID = 2, Value = Fin 7\<rparr>]"
  let ?two = "[\<lparr>ID = 0, Value = Fin 5\<rparr>, \<lparr>ID = 1, Value = Fin 6\<rparr>]"
  let ?cut = "[(''BEGIN TRANSACTION'', []),
      (''INSERT INTO records (value) VALUES (?)'', [Fin 5]),
      (''INSERT INTO records (value) VALUES (?)'', [Fin 6])]"
  have a: "StandardInsert (logging ?D) ?three (0, []) = (Some (EngineError ''full''), (3, ?cut))"
    by (simp add: StandardInsert_def logging_def scripted_def)
  have b: "StandardInsert (logging ?S) ?two (0, []) = (None, (4, ?cut @ [(''COMMIT'', [])]))"
    by (simp add: StandardInsert_def logging_def scripted_def)
  show ?thesis
    using StandardInsert_protocol [OF a] StandardInsert_protocol [OF b] a b
    by simp
qed

text \<open>
  Claim C1. For every populated records table, \<^verbatim>\<open>StatisticsFromDB\<close> returns the aggregates
  in the order mean, median, population standard deviation, minimum, maximum, so that
  they agree with the in-memory statistics. The code does not do this: the query
  selects \<^verbatim>\<open>MIN(value), MAX(value)\<close> in that order, but \<^verbatim>\<open>rows.Scan\<close> is given
  \<^verbatim>\<open>&max, &min\<close>, so the minimum is stored in \<open>max\<close> and the maximum in \<open>min\<close>. On the
  table with the values 0 and 1 the fourth result is 1 and the fifth is 0, while the
  in-memory statistics of the same values have the minimum 0 fourth and the maximum 1
  fifth; the program's own run (a million records with the values 0 to 999999) yields
  the minimum 0 and the maximum 999999 in memory and 999999 and 0 from the database.
\<close>

theorem StatisticsFromDB_min_max_swapped:
  "StatisticsFromDB records_engine [Fin 0, Fin 1] =
     Inr (Fin (1 / 2), Fin (1 / 2), Fin (1 / 2), Fin 1, Fin 0) \<and>
   StatisticsFromRecords [\<lparr>ID = 0, Value = Fin 0\<rparr>, \<lparr>ID = 1, Value = Fin 1\<rparr>] =
     Inr (Fin (1 / 2), Fin (1 / 2), Fin (1 / 2), Fin 0, Fin 1) \<and>
   (\<exists>mean median stddev.
      stats_main records_engine (Inr []) 1000000 =
        MainDone (mean, median, stddev, Fin 0, Fin 999999)
                 (mean, median, stddev, Fin 999999, Fin 0))"
proof (intro conjI)
  have sq: "sqrt (1 / 4) = (1 / 2 :: real)"
    using real_sqrt_abs [of "1 / 2"] by (simp add: power2_eq_square)
  have st: "spec_mean [Fin 0, Fin 1] = Fin (1 / 2) \<and> spec_median [Fin 0, Fin 1] = Fin (1 / 2) \<and>
      spec_population_stddev [Fin 0, Fin 1] = Fin (1 / 2)"
    by (simp add: spec_mean_def spec_sum_def float64_of_int_def spec_median_def
        spec_population_stddev_def fsub_def sq)
  have srt: "sort [Fin 0, Fin 1] = [Fin 0, Fin 1]" by simp
  have ext: "Max (set [Fin 0, Fin 1]) = Fin 1 \<and> Min (set [Fin 0, Fin 1]) = Fin 0"
    by (simp add: max_def min_def)
  show "StatisticsFromDB records_engine [Fin 0, Fin 1] =
     Inr (Fin (1 / 2), Fin (1 / 2), Fin (1 / 2), Fin 1, Fin 0)"
    unfolding StatisticsFromDB_records_engine [of "[Fin 0, Fin 1]", simplified] srt
    using st ext by simp
  show "StatisticsFromRecords [\<lparr>ID = 0, Value = Fin 0\<rparr>, \<lparr>ID = 1, Value = Fin 1\<rparr>] =
     Inr (Fin (1 / 2), Fin (1 / 2), Fin (1 / 2), Fin 0, Fin 1)"
    using st by (simp add: StatisticsFromRecords_run running_min_def running_max_def fgt_def)
  show "\<exists>mean median stddev.
      stats_main records_engine (Inr []) 1000000 =
        MainDone (mean, median, stddev, Fin 0, Fin 999999)
                 (mean, median, stddev, Fin 999999, Fin 0)"
    using stats_main_records_engine [of 1000000] by (simp add: float64_of_int_def)
qed

text \<open>
  Claim C3. In both programs every failure of a database operation (connection open,
  statement execution, scan, empty result set) is logged and ends the program at once
  with a non-zero status; no error is silently ignored. The basic demo does not do this.
  It discards the error of \<^verbatim>\<open>rows.Scan\<close> (line 29): when the scan of a row fails, here
  on a NULL column, the program prints 0 for that row, goes on, and returns with status
  0. It also discards the errors of \<^verbatim>\<open>sql.Open\<close> (line 12) and \<^verbatim>\<open>db.Query\<close> (line 26):
  when either fails, nothing is printed and the run ends in the nil dereference of the
  next method call on the handle. (The benchmark treats each of these failures as fatal,
  and the basic demo a failing statement execution: \<open>stats_failures_fatal\<close>,
  \<open>basic_exec_failure_exits\<close>.)
\<close>

theorem basic_errors_discarded:
  "Scan_int [None] = Inl ScanNull \<and>
   basic_main (scripted (\<lambda>n. None) (Inr [[None]])) (Inr 0) = ([IntLine 0], Returned) \<and>
   basic_main (scripted (\<lambda>n. None) (Inr [[Some 7], [None], [Some 8]])) (Inr 0) =
     ([IntLine 7, IntLine 0, IntLine 8], Returned) \<and>
   basic_main (scripted (\<lambda>n. None) (Inr [])) (Inl (EngineError ''down'')) =
     ([], NilDereference) \<and>
   basic_main (scripted (\<lambda>n. None) (Inl (EngineError ''down''))) (Inr 0) =
     ([], NilDereference)"
  by (simp add: basic_main_def basic_run_def scripted_def upto_rec1 print_row_def Scan_int_def)

section \<open>The claim about the basic demo\<close>

text \<open>
  Claim C2. In the basic demo, after the loop has inserted the values 0 to 9 and the
  program has selected all rows, the values printed are 0 to 9. The code does not do
  this: the statement of line 20 is \<^verbatim>\<open>INSERT INTO t VALUES (%s)\<close>, a formatting verb that
  \<^verbatim>\<open>db.Exec\<close> passes to the engine unchanged, where a parameter is written \<open>?\<close> (as
  \<^verbatim>\<open>StandardInsert\<close> does). The engine rejects the first insert, and the program prints
  that error and exits with status 1: no row is inserted and no value is printed. (With
  the placeholder \<open>?\<close> the same run prints 0 to 9: \<open>basic_run_with_placeholder\<close>.)
\<close>

theorem basic_main_insert_rejected:
  "basic_main t_engine (Inr []) = ([ErrLine (EngineError ''syntax error'')], Exited 1)"
  by (simp add: basic_main_def basic_run_def t_engine_def upto_rec1)

end
